theory Spec2Isabelle
  imports Main "HOL-Library.Word" "HOL-Library.Signed_Division"
begin

unbundle bit_operations_syntax

section \<open>The bit editor: data model\<close>

text \<open>
  The bit editor works on Go byte slices. A bit sequence is a \<^verbatim>\<open>[]byte\<close> whose
  elements are meant to be 0 or 1, but nothing in the code enforces that, so an element
  is modelled as a full byte. A Go string is a sequence of bytes, which is what
  \<^typ>\<open>string\<close> is. Go's \<^verbatim>\<open>int\<close> is modelled as \<^typ>\<open>int\<close>, with the 64-bit
  wrap-around written out where the code adds.
\<close>

type_synonym byte = "8 word"

subsection \<open>Bit packing\<close>

text \<open>
  \<^verbatim>\<open>bytesToBits\<close>: for byte \<open>i\<close> and \<open>j < 8\<close>, element \<open>i*8+j\<close> of the result is 1
  when \<^verbatim>\<open>(b>>(7-j))&1 == 1\<close> and 0 otherwise. The nested loop fills the positions in
  order, eight per byte.
\<close>

definition byteToBits :: "byte \<Rightarrow> byte list" where
  "byteToBits b = map (\<lambda>j. if (drop_bit (7 - j) b) AND 1 = 1 then 1 else 0) [0..<8]"

definition bytesToBits :: "byte list \<Rightarrow> byte list" where
  "bytesToBits data = concat (map byteToBits data)"

text \<open>
  \<^verbatim>\<open>bitsToBytes\<close>: \<^verbatim>\<open>(len(bits)+7)/8\<close> zero bytes; for every index \<open>i\<close> with
  \<^verbatim>\<open>bits[i] == 1\<close>, \<^verbatim>\<open>data[i/8] |= 1 << (7 - i%8)\<close>.
\<close>

definition setBitAt :: "byte list \<Rightarrow> nat \<Rightarrow> byte list" where
  "setBitAt data i = data[i div 8 := (data ! (i div 8)) OR push_bit (7 - i mod 8) 1]"

definition bitsToBytes :: "byte list \<Rightarrow> byte list" where
  "bitsToBytes bits =
     fold (\<lambda>i data. if bits ! i = 1 then setBitAt data i else data)
          [0..<length bits]
          (replicate ((length bits + 7) div 8) 0)"


subsection \<open>Errors and diagnostics\<close>

text \<open>
  Every \<^verbatim>\<open>fmt.Errorf\<close> of the program is one constructor, carrying the values
  the message formats. \<open>Panic\<close> is the run-time panic of a slice expression whose
  bounds are out of range: the program then neither returns bytes nor an error.
\<close>

datatype error =
    StartOutOfBounds int
  | StartGreaterThanEnd int int
  | MismatchedBrackets
  | BlockNotFollowedByNumber
  | InvalidBlockNumber string
  | InvalidNumericArgument char string
  | NotMultipleOf8 int
  | InvalidBinaryString string
  | ExpectedNumberPattern char string
  | InvalidNumericCount char string
  | EmptyBinaryPattern char
  | InvalidBinaryPattern char string
  | UnknownCommand char
  | BlockRequiresPattern char
  | BlockEmptyPattern char
  | NotAllowedInBlock char
  | UnknownBlockCommand char
  | Panic

text \<open>
  The lines written to the diagnostic stream, each with the values it formats.
\<close>

datatype log_entry =
    StartingEdit int int int
  | ProcessingBlock string int int
  | ApplyingBlockCommand string string
  | ProcessingCommand string string int
  | WroteBits int

definition commandNames :: "char \<rightharpoonup> string" where
  "commandNames = map_of
     [(CHR ''t'', ''Take''), (CHR ''s'', ''Skip''), (CHR ''i'', ''Insert''),
      (CHR ''n'', ''Invert''), (CHR ''v'', ''Reverse Bits''), (CHR ''b'', ''Byte-Swap''),
      (CHR ''x'', ''XOR''), (CHR ''a'', ''AND''), (CHR ''o'', ''OR'')]"

text \<open>Indexing a Go map with a missing key gives the zero value, the empty string.\<close>

definition commandName :: "char \<Rightarrow> string" where
  "commandName c = (case commandNames c of Some n \<Rightarrow> n | None \<Rightarrow> [])"

subsection \<open>Library functions and primitives of Go\<close>

text \<open>Go's \<^verbatim>\<open>int\<close> is 64 bits wide and addition wraps around.\<close>

definition wrap64 :: "int \<Rightarrow> int" where
  "wrap64 x = signed_take_bit 63 x"

definition isDigit :: "char \<Rightarrow> bool" where
  "isDigit c \<longleftrightarrow> (48::int) \<le> of_char c \<and> (of_char c :: int) \<le> 57"

fun digitsValue :: "string \<Rightarrow> int \<Rightarrow> int option" where
  "digitsValue [] n = Some n"
| "digitsValue (c # cs) n =
     (if isDigit c then digitsValue cs (n * 10 + (of_char c - 48)) else None)"

text \<open>
  \<^verbatim>\<open>strconv.Atoi\<close>: an optional sign, then at least one decimal digit and nothing
  else; a value outside the 64-bit range is an error too.
\<close>

definition Atoi :: "string \<Rightarrow> int option" where
  "Atoi s =
     (if s = [] then None
      else
        let neg = (hd s = CHR ''-'');
            body = (if hd s = CHR ''-'' \<or> hd s = CHR ''+'' then tl s else s)
        in if body = [] then None
           else (case digitsValue body 0 of
                   None \<Rightarrow> None
                 | Some n \<Rightarrow>
                     if neg then (if n \<le> 2 ^ 63 then Some (- n) else None)
                     else (if n < 2 ^ 63 then Some n else None)))"

text \<open>The substring \<^verbatim>\<open>s[lo:hi]\<close>, used by the program only with \<open>lo \<le> hi \<le> len(s)\<close>.\<close>

definition substr :: "string \<Rightarrow> nat \<Rightarrow> nat \<Rightarrow> string" where
  "substr s lo hi = take (hi - lo) (drop lo s)"

text \<open>
  The slice expression \<^verbatim>\<open>inputBits[lo:hi]\<close> on \<^verbatim>\<open>int\<close> indices: it panics unless
  \<open>0 \<le> lo \<le> hi \<le> cap\<close>, and the capacity of \<^verbatim>\<open>inputBits\<close> is its length.
\<close>

definition slice :: "byte list \<Rightarrow> int \<Rightarrow> int \<Rightarrow> error + byte list" where
  "slice xs lo hi =
     (if 0 \<le> lo \<and> lo \<le> hi \<and> hi \<le> int (length xs)
      then Inr (take (nat (hi - lo)) (drop (nat lo) xs))
      else Inl Panic)"

text \<open>\<^verbatim>\<open>strings.IndexRune(s, c)\<close> for an ASCII rune: the index of its first occurrence.\<close>

fun IndexRune :: "string \<Rightarrow> char \<Rightarrow> nat option" where
  "IndexRune [] c = None"
| "IndexRune (x # xs) c = (if x = c then Some 0 else map_option Suc (IndexRune xs c))"

text \<open>
  \<^verbatim>\<open>strings.SplitN(s, ":", 2)\<close>: the text before and after the first colon, or a single
  part (here \<open>None\<close>) when there is no colon.
\<close>

definition SplitN2 :: "string \<Rightarrow> (string \<times> string) option" where
  "SplitN2 s =
     (if CHR '':'' \<in> set s
      then Some (takeWhile (\<lambda>c. c \<noteq> CHR '':'') s, tl (dropWhile (\<lambda>c. c \<noteq> CHR '':'') s))
      else None)"

subsection \<open>Scanning loops\<close>

text \<open>
  \<^verbatim>\<open>for i := cmdIdx; i < len(s); i++ { if strings.ContainsRune(stops, rune(s[i])) {
  nextCmdIdx = i; break } }\<close> with \<^verbatim>\<open>nextCmdIdx\<close> starting at \<^verbatim>\<open>len(s)\<close>.
\<close>

function findNext :: "string \<Rightarrow> string \<Rightarrow> nat \<Rightarrow> nat" where
  "findNext stops s i =
     (if i < length s then (if s ! i \<in> set stops then i else findNext stops s (i + 1))
      else length s)"
  by pat_completeness auto
termination
  by (relation "measure (\<lambda>(stops, s, i). length s - i)") auto

declare findNext.simps [simp del]

text \<open>The digit run after a block's closing bracket.\<close>

function scanDigits :: "string \<Rightarrow> nat \<Rightarrow> nat" where
  "scanDigits s numEndIdx =
     (if numEndIdx < length s \<and> isDigit (s ! numEndIdx) then scanDigits s (numEndIdx + 1)
      else numEndIdx)"
  by pat_completeness auto
termination
  by (relation "measure (\<lambda>(s, i). length s - i)") auto

declare scanDigits.simps [simp del]

subsection \<open>Transformations of one chunk\<close>

definition logicalOp :: "char \<Rightarrow> byte \<Rightarrow> byte \<Rightarrow> byte" where
  "logicalOp command b patternBit =
     (if command = CHR ''x'' then b XOR patternBit
      else if command = CHR ''a'' then b AND patternBit
      else if command = CHR ''o'' then b OR patternBit
      else 0)"

text \<open>\<^verbatim>\<open>byte(pattern[i%len(pattern)] - '0')\<close>, in byte arithmetic.\<close>

definition patternBit :: "string \<Rightarrow> nat \<Rightarrow> byte" where
  "patternBit pattern i = of_char (pattern ! (i mod length pattern)) - of_char (CHR ''0'')"

definition applyLogical :: "char \<Rightarrow> string \<Rightarrow> byte list \<Rightarrow> byte list" where
  "applyLogical command pattern chunk =
     map (\<lambda>i. logicalOp command (chunk ! i) (patternBit pattern i)) [0..<length chunk]"

text \<open>The two-index swap loop of the block command \<^verbatim>\<open>v\<close>.\<close>

function reverseInPlace :: "byte list \<Rightarrow> int \<Rightarrow> int \<Rightarrow> byte list" where
  "reverseInPlace xs i j =
     (if i < j then reverseInPlace (xs[nat i := xs ! nat j, nat j := xs ! nat i]) (i + 1) (j - 1)
      else xs)"
  by pat_completeness auto
termination
  by (relation "measure (\<lambda>(xs, i, j). nat (j - i))") auto

declare reverseInPlace.simps [simp del]

text \<open>
  The block command \<^verbatim>\<open>b\<close>: with more than one whole byte, byte \<open>i\<close> of the chunk
  is overwritten with byte \<open>numBytes - 1 - i\<close> of a copy taken before the loop.
\<close>

definition blockByteSwap :: "byte list \<Rightarrow> byte list" where
  "blockByteSwap processedChunk =
     (let numBytes = length processedChunk div 8 in
      if numBytes > 1 then
        fold (\<lambda>i pc. take (i * 8) pc
                      @ take 8 (drop ((numBytes - 1 - i) * 8) processedChunk)
                      @ drop (i * 8 + 8) pc)
             [0..<numBytes] processedChunk
      else processedChunk)"

text \<open>
  The top-level command \<^verbatim>\<open>b\<close>: the whole bytes of the chunk from the last to the
  first, then the bits that do not form a whole byte.
\<close>

definition topByteSwap :: "byte list \<Rightarrow> byte list" where
  "topByteSwap chunk =
     (let numBytes = length chunk div 8 in
      concat (map (\<lambda>i. take 8 (drop (i * 8) chunk)) (rev [0..<numBytes]))
      @ (if length chunk mod 8 \<noteq> 0 then drop (numBytes * 8) chunk else []))"


section \<open>The block sub-engine\<close>

text \<open>The \<^verbatim>\<open>switch command\<close> of \<^verbatim>\<open>applyBlockOps\<close>, on the working chunk.\<close>

definition blockCommand :: "char \<Rightarrow> string \<Rightarrow> byte list \<Rightarrow> error + byte list" where
  "blockCommand command argStr processedChunk =
     (if command = CHR ''n'' then Inr (map (\<lambda>b. 1 - b) processedChunk)
      else if command = CHR ''v'' then
        Inr (reverseInPlace processedChunk 0 (int (length processedChunk) - 1))
      else if command = CHR ''b'' then Inr (blockByteSwap processedChunk)
      else if command = CHR ''x'' \<or> command = CHR ''a'' \<or> command = CHR ''o'' then
        (case SplitN2 argStr of
           None \<Rightarrow> Inl (BlockRequiresPattern command)
         | Some (count, pattern) \<Rightarrow>
             if length pattern = 0 then Inl (BlockEmptyPattern command)
             else Inr (applyLogical command pattern processedChunk))
      else if command = CHR ''t'' \<or> command = CHR ''s'' \<or> command = CHR ''i'' then
        Inl (NotAllowedInBlock command)
      else Inl (UnknownBlockCommand command))"

text \<open>
  The end of the argument of the chain command at \<open>cmdIdx\<close>: only \<^verbatim>\<open>x\<close>, \<^verbatim>\<open>a\<close>
  and \<^verbatim>\<open>o\<close> take one, and it runs to the next character of \<^verbatim>\<open>"nvxao"\<close>.
\<close>

definition blockArgEnd :: "string \<Rightarrow> char \<Rightarrow> nat \<Rightarrow> nat" where
  "blockArgEnd subProgram command cmdIdx =
     (if command \<in> set ''xao'' then findNext ''nvxao'' subProgram cmdIdx else cmdIdx)"

text \<open>
  The loop of \<^verbatim>\<open>applyBlockOps\<close>. The state is the index into the sub-program, the
  working chunk and the diagnostic stream.
\<close>

function blockLoop ::
  "string \<Rightarrow> bool \<Rightarrow> nat \<Rightarrow> byte list \<Rightarrow> log_entry list \<Rightarrow> log_entry list \<times> (error + byte list)"
where
  "blockLoop subProgram verbose cmdIdx processedChunk lg =
     (if cmdIdx < length subProgram then
        let command = subProgram ! cmdIdx;
            nextCmdIdx = blockArgEnd subProgram command (cmdIdx + 1);
            argStr = substr subProgram (cmdIdx + 1) nextCmdIdx;
            logArg = (if argStr \<noteq> [] then '' with arg '' @ [CHR 0x22] @ argStr @ [CHR 0x22] else argStr);
            lg1 = (if verbose then lg @ [ApplyingBlockCommand (commandName command) logArg] else lg)
        in (case blockCommand command argStr processedChunk of
              Inl e \<Rightarrow> (lg1, Inl e)
            | Inr processedChunk' \<Rightarrow> blockLoop subProgram verbose nextCmdIdx processedChunk' lg1)
      else (lg, Inr processedChunk))"
  by pat_completeness auto
termination
proof -
  have ge: "i \<le> length s \<Longrightarrow> i \<le> findNext stops s i" for stops s i
    by (induction stops s i rule: findNext.induct) (subst findNext.simps, auto)
  have less: "length s - blockArgEnd s c (Suc i) < length s - i" if "i < length s" for s c i
    using that ge [of "Suc i" s "''nvxao''"] by (auto simp: blockArgEnd_def)
  show ?thesis
    by (relation "measure (\<lambda>(subProgram, verbose, cmdIdx, pc, lg). length subProgram - cmdIdx)")
       (auto simp: less)
qed

declare blockLoop.simps [simp del]

definition applyBlockOps ::
  "byte list \<Rightarrow> string \<Rightarrow> bool \<Rightarrow> log_entry list \<Rightarrow> log_entry list \<times> (error + byte list)"
where
  "applyBlockOps initialChunk subProgram verbose lg = blockLoop subProgram verbose 0 initialChunk lg"


section \<open>The execution engine\<close>

text \<open>\<^verbatim>\<open>readEnd := inputPos + count; if readEnd > endBit { readEnd = endBit }\<close>\<close>

definition clampEnd :: "int \<Rightarrow> int \<Rightarrow> int \<Rightarrow> int" where
  "clampEnd inputPos count endBit =
     (let readEnd = wrap64 (inputPos + count) in if readEnd > endBit then endBit else readEnd)"

text \<open>
  The inner \<^verbatim>\<open>switch\<close> over \<^verbatim>\<open>t s n v b\<close>, once the count is parsed. The result is
  the new cursor and the new output. \<^verbatim>\<open>s\<close> adds the count to the cursor as it is;
  the other four clamp \<^verbatim>\<open>readEnd\<close> and slice the input.
\<close>

definition execNumeric ::
  "char \<Rightarrow> int \<Rightarrow> byte list \<Rightarrow> int \<Rightarrow> int \<Rightarrow> byte list \<Rightarrow> error + (int \<times> byte list)"
where
  "execNumeric command count inputBits endBit inputPos out =
     (if command = CHR ''t'' then
        (let readEnd = clampEnd inputPos count endBit in
         case slice inputBits inputPos readEnd of
           Inl e \<Rightarrow> Inl e
         | Inr chunk \<Rightarrow> Inr (readEnd, out @ chunk))
      else if command = CHR ''s'' then Inr (wrap64 (inputPos + count), out)
      else if command = CHR ''n'' then
        (let readEnd = clampEnd inputPos count endBit in
         case slice inputBits inputPos readEnd of
           Inl e \<Rightarrow> Inl e
         | Inr chunk \<Rightarrow> Inr (readEnd, out @ map (\<lambda>b. 1 - b) chunk))
      else if command = CHR ''v'' then
        (let readEnd = clampEnd inputPos count endBit in
         case slice inputBits inputPos readEnd of
           Inl e \<Rightarrow> Inl e
         | Inr chunk \<Rightarrow> Inr (readEnd, out @ rev chunk))
      else if command = CHR ''b'' then
        (if count smod 8 \<noteq> 0 then Inl (NotMultipleOf8 count)
         else
           let readEnd = clampEnd inputPos count endBit in
           case slice inputBits inputPos readEnd of
             Inl e \<Rightarrow> Inl e
           | Inr chunk \<Rightarrow> Inr (readEnd, out @ topByteSwap chunk))
      else Inr (inputPos, out))"

definition isBinaryChar :: "char \<Rightarrow> bool" where
  "isBinaryChar c \<longleftrightarrow> c = CHR ''0'' \<or> c = CHR ''1''"

text \<open>The command \<^verbatim>\<open>i\<close>: the cursor does not move.\<close>

definition execInsert :: "string \<Rightarrow> int \<Rightarrow> byte list \<Rightarrow> error + (int \<times> byte list)" where
  "execInsert argStr inputPos out =
     (if list_all isBinaryChar argStr
      then Inr (inputPos, out @ map (\<lambda>c. of_char c - of_char (CHR ''0'')) argStr)
      else Inl (InvalidBinaryString argStr))"

text \<open>The commands \<^verbatim>\<open>x\<close>, \<^verbatim>\<open>a\<close>, \<^verbatim>\<open>o\<close> at top level.\<close>

definition execLogical ::
  "char \<Rightarrow> string \<Rightarrow> byte list \<Rightarrow> int \<Rightarrow> int \<Rightarrow> byte list \<Rightarrow> error + (int \<times> byte list)"
where
  "execLogical command argStr inputBits endBit inputPos out =
     (case SplitN2 argStr of
        None \<Rightarrow> Inl (ExpectedNumberPattern command argStr)
      | Some (countStr, pattern) \<Rightarrow>
          (case Atoi countStr of
             None \<Rightarrow> Inl (InvalidNumericCount command countStr)
           | Some count \<Rightarrow>
               if length pattern = 0 then Inl (EmptyBinaryPattern command)
               else if \<not> list_all isBinaryChar pattern then Inl (InvalidBinaryPattern command pattern)
               else
                 let readEnd = clampEnd inputPos count endBit in
                 case slice inputBits inputPos readEnd of
                   Inl e \<Rightarrow> Inl e
                 | Inr chunk \<Rightarrow> Inr (readEnd, out @ applyLogical command pattern chunk)))"

text \<open>
  One pass through the body of the inner loop for a command other than \<^verbatim>\<open>[\<close>:
  the argument runs to the next character of \<^verbatim>\<open>"tsnivxaob["\<close>. The result is the
  diagnostic stream and either an error or the next index, cursor and output.
\<close>

definition execSimple ::
  "byte list \<Rightarrow> string \<Rightarrow> int \<Rightarrow> bool \<Rightarrow> nat \<Rightarrow> int \<Rightarrow> byte list \<Rightarrow> log_entry list
   \<Rightarrow> log_entry list \<times> (error + (nat \<times> int \<times> byte list))"
where
  "execSimple inputBits commands endBit shouldLog cmdIdx inputPos out lg =
     (let command = commands ! cmdIdx;
          bitsBefore = int (length out);
          nextCmdIdx = findNext ''tsnivxaob['' commands (cmdIdx + 1);
          argStr = substr commands (cmdIdx + 1) nextCmdIdx;
          lg1 = (if shouldLog
                 then lg @ [ProcessingCommand (commandName command) argStr inputPos] else lg);
          r = (if command \<in> set ''tsnvb'' then
                 (case Atoi argStr of
                    None \<Rightarrow> Inl (InvalidNumericArgument command argStr)
                  | Some count \<Rightarrow> execNumeric command count inputBits endBit inputPos out)
               else if command = CHR ''i'' then execInsert argStr inputPos out
               else if command \<in> set ''xao'' then
                 execLogical command argStr inputBits endBit inputPos out
               else Inl (UnknownCommand command))
      in case r of
           Inl e \<Rightarrow> (lg1, Inl e)
         | Inr (inputPos', out') \<Rightarrow>
             (if shouldLog \<and> command \<noteq> CHR ''s''
              then lg1 @ [WroteBits (int (length out') - bitsBefore)] else lg1,
              Inr (nextCmdIdx, inputPos', out')))"

text \<open>The body of the inner loop for the command \<^verbatim>\<open>[\<close>.\<close>

definition execBlock ::
  "byte list \<Rightarrow> string \<Rightarrow> int \<Rightarrow> bool \<Rightarrow> nat \<Rightarrow> int \<Rightarrow> byte list \<Rightarrow> log_entry list
   \<Rightarrow> log_entry list \<times> (error + (nat \<times> int \<times> byte list))"
where
  "execBlock inputBits commands endBit shouldLog cmdIdx inputPos out lg =
     (let bitsBefore = int (length out);
          cmdIdx1 = cmdIdx + 1
      in case IndexRune (drop cmdIdx1 commands) (CHR '']'') of
           None \<Rightarrow> (lg, Inl MismatchedBrackets)
         | Some k \<Rightarrow>
             let endBracketIdx = k + cmdIdx1;
                 subProgram = substr commands cmdIdx1 endBracketIdx;
                 numStartIdx = endBracketIdx + 1;
                 numEndIdx = scanDigits commands numStartIdx
             in if numStartIdx = numEndIdx then (lg, Inl BlockNotFollowedByNumber)
                else
                  (case Atoi (substr commands numStartIdx numEndIdx) of
                     None \<Rightarrow> (lg, Inl (InvalidBlockNumber (substr commands numStartIdx numEndIdx)))
                   | Some count \<Rightarrow>
                       let lg1 = (if shouldLog
                                  then lg @ [ProcessingBlock subProgram count inputPos] else lg);
                           readEnd = clampEnd inputPos count endBit
                       in case slice inputBits inputPos readEnd of
                            Inl e \<Rightarrow> (lg1, Inl e)
                          | Inr chunk \<Rightarrow>
                              (case applyBlockOps chunk subProgram shouldLog lg1 of
                                 (lg2, Inl e) \<Rightarrow> (lg2, Inl e)
                               | (lg2, Inr processedChunk) \<Rightarrow>
                                   (if shouldLog
                                    then lg2 @ [WroteBits (int (length (out @ processedChunk))
                                                           - bitsBefore)]
                                    else lg2,
                                    Inr (numEndIdx, readEnd, out @ processedChunk)))))"

definition execCommand ::
  "byte list \<Rightarrow> string \<Rightarrow> int \<Rightarrow> bool \<Rightarrow> nat \<Rightarrow> int \<Rightarrow> byte list \<Rightarrow> log_entry list
   \<Rightarrow> log_entry list \<times> (error + (nat \<times> int \<times> byte list))"
where
  "execCommand inputBits commands endBit shouldLog cmdIdx inputPos out lg =
     (if commands ! cmdIdx = CHR ''[''
      then execBlock inputBits commands endBit shouldLog cmdIdx inputPos out lg
      else execSimple inputBits commands endBit shouldLog cmdIdx inputPos out lg)"

text \<open>
  The inner loop: one scan of the command text from \<open>cmdIdx\<close>, which stops early
  when the cursor has reached \<open>endBit\<close>. \<open>shouldLog\<close> is
  \<^verbatim>\<open>verbose && (!verboseOnce || !logPrinted)\<close>, which does not change within a pass.
\<close>

function innerLoop ::
  "byte list \<Rightarrow> string \<Rightarrow> int \<Rightarrow> bool \<Rightarrow> nat \<Rightarrow> int \<Rightarrow> byte list \<Rightarrow> log_entry list
   \<Rightarrow> log_entry list \<times> (error + (int \<times> byte list))"
where
  "innerLoop inputBits commands endBit shouldLog cmdIdx inputPos out lg =
     (if cmdIdx < length commands then
        if inputPos \<ge> endBit then (lg, Inr (inputPos, out))
        else
          (case execCommand inputBits commands endBit shouldLog cmdIdx inputPos out lg of
             (lg', Inl e) \<Rightarrow> (lg', Inl e)
           | (lg', Inr (cmdIdx', inputPos', out')) \<Rightarrow>
               innerLoop inputBits commands endBit shouldLog cmdIdx' inputPos' out' lg')
      else (lg, Inr (inputPos, out)))"
  by pat_completeness auto
termination
proof -
  have fn: "i \<le> length s \<Longrightarrow> i \<le> findNext stops s i" for stops s i
    by (induction stops s i rule: findNext.induct) (subst findNext.simps, auto)
  have sd: "i \<le> scanDigits s i" for s i
    by (induction s i rule: scanDigits.induct) (subst scanDigits.simps, auto)
  have adv: "length commands - cmdIdx' < length commands - cmdIdx"
    if "execCommand inputBits commands endBit shouldLog cmdIdx inputPos out lg
           = (lg', Inr (cmdIdx', inputPos', out'))"
      and "cmdIdx < length commands"
    for inputBits commands endBit shouldLog cmdIdx inputPos out lg lg' cmdIdx' inputPos' out'
  proof (cases "commands ! cmdIdx = CHR ''[''")
    case True
    with that show ?thesis
      using sd [of "Suc (the (IndexRune (drop (Suc cmdIdx) commands) (CHR '']'')) + Suc cmdIdx)" commands]
      by (auto simp: execCommand_def execBlock_def Let_def
               split: option.splits sum.splits prod.splits if_splits)
  next
    case False
    with that show ?thesis
      using fn [of "Suc cmdIdx" commands "''tsnivxaob[''"]
      by (auto simp: execCommand_def execSimple_def Let_def split: sum.splits prod.splits)
  qed
  show ?thesis
    by (relation "measure (\<lambda>(inputBits, commands, endBit, shouldLog, cmdIdx, inputPos, out, lg).
                    length commands - cmdIdx)")
       (auto dest: adv [OF sym])
qed

declare innerLoop.simps [simp del]

text \<open>
  The outer loop, \<^verbatim>\<open>for inputPos < endBit\<close>: each pass scans the command text from
  its start. Nothing bounds the number of passes, so the loop is a partial function
  and \<open>None\<close> is a run that never returns. The loop state is \<open>logPrinted\<close>, the
  cursor, the output and the diagnostic stream.
\<close>

partial_function (option) outerLoop ::
  "byte list \<Rightarrow> string \<Rightarrow> int \<Rightarrow> bool \<Rightarrow> bool \<Rightarrow> bool \<times> int \<times> byte list \<times> log_entry list
   \<Rightarrow> (log_entry list \<times> (error + byte list)) option"
where
  "outerLoop inputBits commands endBit verbose verboseOnce st =
     (case st of (logPrinted, inputPos, out, lg) \<Rightarrow>
        if inputPos < endBit then
          if length commands = 0 then Some (lg, Inr out)
          else
            (case innerLoop inputBits commands endBit
                    (verbose \<and> (\<not> verboseOnce \<or> \<not> logPrinted)) 0 inputPos out lg of
               (lg', Inl e) \<Rightarrow> Some (lg', Inl e)
             | (lg', Inr (inputPos', out')) \<Rightarrow>
                 outerLoop inputBits commands endBit verbose verboseOnce (True, inputPos', out', lg'))
        else Some (lg, Inr out))"

declare outerLoop.simps [code]

text \<open>
  \<^verbatim>\<open>applyEdits\<close>: the range checks, the two loops, and the packing of the output
  bits. The result is the diagnostic stream with the returned error or bytes.
\<close>

definition applyEdits ::
  "byte list \<Rightarrow> string \<Rightarrow> int \<Rightarrow> int \<Rightarrow> bool \<Rightarrow> bool
   \<Rightarrow> (log_entry list \<times> (error + byte list)) option"
where
  "applyEdits data commands startBit endBit verbose verboseOnce =
     (let inputBits = bytesToBits data in
      if startBit < 0 \<or> startBit > int (length inputBits)
      then Some ([], Inl (StartOutOfBounds startBit))
      else
        let endBit' = (if endBit \<le> 0 \<or> endBit > int (length inputBits)
                       then int (length inputBits) else endBit)
        in if startBit > endBit' then Some ([], Inl (StartGreaterThanEnd startBit endBit'))
           else
             let lg = (if verbose
                       then [StartingEdit (int (length inputBits)) startBit endBit'] else [])
             in (case outerLoop inputBits commands endBit' verbose verboseOnce
                        (False, startBit, [], lg) of
                   None \<Rightarrow> None
                 | Some (lg', Inl e) \<Rightarrow> Some (lg', Inl e)
                 | Some (lg', Inr outputBits) \<Rightarrow> Some (lg', Inr (bitsToBytes outputBits))))"

text \<open>What the caller receives: the error or the bytes, without the diagnostics.\<close>

definition transform ::
  "byte list \<Rightarrow> string \<Rightarrow> int \<Rightarrow> int \<Rightarrow> bool \<Rightarrow> bool \<Rightarrow> (error + byte list) option"
where
  "transform data commands startBit endBit verbose verboseOnce =
     map_option snd (applyEdits data commands startBit endBit verbose verboseOnce)"


section \<open>Bit packing: the round trip\<close>

lemma byteToBits_length [simp]: "length (byteToBits b) = 8"
  by (simp add: byteToBits_def)

lemma byteToBits_nth: "j < 8 \<Longrightarrow> byteToBits b ! j = (if bit b (7 - j) then 1 else 0)"
  unfolding byteToBits_def
  by (simp add: bit_iff_odd_drop_bit and_one_eq mod2_eq_if del: upt_Suc)

lemma bytesToBits_Cons: "bytesToBits (b # data) = byteToBits b @ bytesToBits data"
  by (simp add: bytesToBits_def)

lemma bytesToBits_length [simp]: "length (bytesToBits data) = 8 * length data"
  by (induction data) (simp_all add: bytesToBits_def)

lemma bytesToBits_nth:
  "k < length data \<Longrightarrow> j < 8
   \<Longrightarrow> bytesToBits data ! (8 * k + j) = (if bit (data ! k) (7 - j) then 1 else 0)"
proof (induction data arbitrary: k)
  case Nil
  then show ?case by simp
next
  case (Cons b data)
  show ?case
  proof (cases k)
    case 0
    with Cons.prems show ?thesis
      by (simp add: bytesToBits_Cons nth_append byteToBits_nth)
  next
    case (Suc k')
    with Cons.prems have "k' < length data" by simp
    from Cons.IH [OF this Cons.prems(2)] Suc show ?thesis
      by (simp add: bytesToBits_Cons nth_append)
  qed
qed

lemma divmod8: "q < 8 \<Longrightarrow> (8 * k + q) div 8 = k \<and> (8 * k + q) mod 8 = (q::nat)"
  by simp

lemma setBitAt_bit:
  "k < length d
   \<Longrightarrow> bit (setBitAt d n ! k) p \<longleftrightarrow> bit (d ! k) p \<or> (n div 8 = k \<and> p = 7 - n mod 8)"
proof (cases "n div 8 = k")
  case True
  assume "k < length d"
  have "7 - n mod 8 < 8" by simp
  with True \<open>k < length d\<close> show ?thesis
    by (auto simp: setBitAt_def bit_or_iff bit_exp_iff)
next
  case False
  then show ?thesis by (simp add: setBitAt_def)
qed

lemma fold_pack_length [simp]:
  "length (fold (\<lambda>i data. if bits ! i = 1 then setBitAt data i else data) [0..<n] data0)
   = length data0"
  by (induction n) (simp_all add: setBitAt_def)

text \<open>
  After the first \<open>n\<close> indices, bit \<open>p\<close> of byte \<open>k\<close> is set when it was set
  before or when the element at index \<open>8k + (7 - p)\<close>, below \<open>n\<close>, is 1.
\<close>

lemma fold_pack_bit:
  "k < length data0 \<Longrightarrow>
   bit (fold (\<lambda>i data. if bits ! i = 1 then setBitAt data i else data) [0..<n] data0 ! k) p
   \<longleftrightarrow> bit (data0 ! k) p \<or> (p < 8 \<and> 8 * k + (7 - p) < n \<and> bits ! (8 * k + (7 - p)) = 1)"
proof (induction n)
  case 0
  then show ?case by simp
next
  case (Suc n)
  let ?f = "\<lambda>i data. if bits ! i = 1 then setBitAt data i else data"
  let ?d = "fold ?f [0..<n] data0"
  have len: "length ?d = length data0" by simp
  have IH: "bit (?d ! k) p \<longleftrightarrow>
      bit (data0 ! k) p \<or> (p < 8 \<and> 8 * k + (7 - p) < n \<and> bits ! (8 * k + (7 - p)) = 1)"
    using Suc by simp
  have hit: "p < 8 \<and> 8 * k + (7 - p) = n \<longleftrightarrow> n div 8 = k \<and> p = 7 - n mod 8 \<and> p < 8"
  proof
    assume a: "p < 8 \<and> 8 * k + (7 - p) = n"
    have "(8 * k + (7 - p)) div 8 = k" "(8 * k + (7 - p)) mod 8 = 7 - p"
      by (rule divmod8 [THEN conjunct1], simp) (rule divmod8 [THEN conjunct2], simp)
    with a have "n div 8 = k" "n mod 8 = 7 - p" by blast+
    with a show "n div 8 = k \<and> p = 7 - n mod 8 \<and> p < 8" by auto
  next
    assume a: "n div 8 = k \<and> p = 7 - n mod 8 \<and> p < 8"
    have "8 * (n div 8) + n mod 8 = n" by simp
    with a show "p < 8 \<and> 8 * k + (7 - p) = n" by auto
  qed
  show ?case
  proof (cases "bits ! n = 1")
    case False
    then show ?thesis using IH by (auto simp: less_Suc_eq)
  next
    case True
    have "bit (setBitAt ?d n ! k) p \<longleftrightarrow> bit (?d ! k) p \<or> (n div 8 = k \<and> p = 7 - n mod 8)"
      using Suc.prems len by (simp add: setBitAt_bit)
    then show ?thesis using True IH hit
      by (auto simp: less_Suc_eq)
  qed
qed

text \<open>
  C7. For every byte sequence \<open>B\<close>, converting \<open>B\<close> to bits (most significant bit
  first, eight elements per byte) and converting those bits back to bytes gives
  exactly \<open>B\<close>.
\<close>

theorem C7_pack_roundtrip:
  "length (bytesToBits B) = 8 * length B
   \<and> (\<forall>k<length B. \<forall>j<8. bytesToBits B ! (8 * k + j) = (if bit (B ! k) (7 - j) then 1 else 0))
   \<and> bitsToBytes (bytesToBits B) = B"
proof (intro conjI)
  show "length (bytesToBits B) = 8 * length B" by simp
next
  show "\<forall>k<length B. \<forall>j<8. bytesToBits B ! (8 * k + j) = (if bit (B ! k) (7 - j) then 1 else 0)"
    by (simp add: bytesToBits_nth)
next
  show "bitsToBytes (bytesToBits B) = B"
  proof (rule nth_equalityI)
    show "length (bitsToBytes (bytesToBits B)) = length B"
      by (simp add: bitsToBytes_def)
  next
    fix k assume "k < length (bitsToBytes (bytesToBits B))"
    then have k: "k < length B" by (simp add: bitsToBytes_def)
    show "bitsToBytes (bytesToBits B) ! k = B ! k"
    proof (rule bit_word_eqI)
      fix p assume "p < LENGTH(8)"
      then have p: "p < 8" by simp
      have "8 * k + (7 - p) < 8 * length B" using k p by simp
      then show "bit (bitsToBytes (bytesToBits B) ! k) p = bit (B ! k) p"
        using k p bytesToBits_nth [of k B "7 - p"]
        by (simp add: bitsToBytes_def fold_pack_bit)
    qed
  qed
qed

theorem C7_pack_roundtrip_witness:
  "(0::nat) < length [0x80 :: byte] \<and> (0::nat) < 8
   \<and> bytesToBits [0x80] ! (8 * 0 + 0) = 1
   \<and> bitsToBytes (bytesToBits [0x80]) = [0x80]"
  using C7_pack_roundtrip [of "[0x80]"] by simp


section \<open>Reversing and inverting a block\<close>

text \<open>
  The swap loop of the block command \<^verbatim>\<open>v\<close> reverses the chunk, and reversing
  commutes with inverting every element: the chains \<^verbatim>\<open>vn\<close> and \<^verbatim>\<open>nv\<close> give the
  same result on every chunk.
\<close>

lemma reverseInPlace_length [simp]: "length (reverseInPlace xs i j) = length xs"
  by (induction xs i j rule: reverseInPlace.induct) (subst reverseInPlace.simps, simp)

lemma reverseInPlace_nth:
  "0 \<le> i \<Longrightarrow> j < int (length xs) \<Longrightarrow> k < length xs \<Longrightarrow>
   reverseInPlace xs i j ! k
   = (if i \<le> int k \<and> int k \<le> j then xs ! nat (i + j - int k) else xs ! k)"
proof (induction xs i j rule: reverseInPlace.induct)
  case (1 xs i j)
  show ?case
  proof (cases "i < j")
    case False
    then have "reverseInPlace xs i j = xs" by (subst reverseInPlace.simps) simp
    moreover have "nat (i + j - int k) = k" if "i \<le> int k" "int k \<le> j"
      using that False by simp
    ultimately show ?thesis by auto
  next
    case True
    let ?xs' = "xs[nat i := xs ! nat j, nat j := xs ! nat i]"
    have unfold: "reverseInPlace xs i j = reverseInPlace ?xs' (i + 1) (j - 1)"
      using True by (subst reverseInPlace.simps) simp
    have IH: "reverseInPlace ?xs' (i + 1) (j - 1) ! k
        = (if i + 1 \<le> int k \<and> int k \<le> j - 1 then ?xs' ! nat (i + 1 + (j - 1) - int k)
           else ?xs' ! k)"
      using "1.IH" [OF True] "1.prems" by simp
    have ij: "nat i < length xs" "nat j < length xs" "nat i \<noteq> nat j"
      using True "1.prems" by simp_all
    consider "int k = i" | "int k = j" | "i < int k \<and> int k < j" | "int k < i \<or> j < int k"
      by linarith
    then show ?thesis
    proof cases
      case 1
      then have "k = nat i" by simp
      with 1 True ij "1.prems" show ?thesis unfolding unfold IH by simp
    next
      case 2
      then have "k = nat j" by simp
      with 2 True ij "1.prems" show ?thesis unfolding unfold IH by simp
    next
      case 3
      then have "nat (i + j - int k) \<noteq> nat i" "nat (i + j - int k) \<noteq> nat j"
        using "1.prems" by linarith+
      with 3 show ?thesis unfolding unfold IH by simp
    next
      case 4
      then have "k \<noteq> nat i" "k \<noteq> nat j" using "1.prems" True by linarith+
      with 4 show ?thesis unfolding unfold IH by auto
    qed
  qed
qed

lemma reverseInPlace_rev: "reverseInPlace xs 0 (int (length xs) - 1) = rev xs"
proof (rule nth_equalityI)
  show "length (reverseInPlace xs 0 (int (length xs) - 1)) = length (rev xs)" by simp
next
  fix k assume "k < length (reverseInPlace xs 0 (int (length xs) - 1))"
  then have k: "k < length xs" by simp
  then have "nat (int (length xs) - 1 - int k) = length xs - Suc k" by simp
  with k show "reverseInPlace xs 0 (int (length xs) - 1) ! k = rev xs ! k"
    by (simp add: reverseInPlace_nth rev_nth)
qed

lemma block_reverse_invert_commute:
  "applyBlockOps chunk ''vn'' False lg = applyBlockOps chunk ''nv'' False lg"
proof -
  have stop: "blockLoop s False (length s) pc lg = (lg, Inr pc)" for s pc
    by (subst blockLoop.simps) simp
  have vn: "applyBlockOps chunk ''vn'' False lg = (lg, Inr (map (\<lambda>b. 1 - b) (rev chunk)))"
    using stop [of "''vn''"]
    by (simp add: applyBlockOps_def blockLoop.simps [of _ _ 0] blockLoop.simps [of _ _ 1]
          blockLoop.simps [of _ _ "Suc 0"]
          blockArgEnd_def blockCommand_def substr_def reverseInPlace_rev Let_def)
  have nv: "applyBlockOps chunk ''nv'' False lg = (lg, Inr (rev (map (\<lambda>b. 1 - b) chunk)))"
    using stop [of "''nv''"] reverseInPlace_rev [of "map (\<lambda>b. 1 - b) chunk"]
    by (simp add: applyBlockOps_def blockLoop.simps [of _ _ 0] blockLoop.simps [of _ _ 1]
          blockLoop.simps [of _ _ "Suc 0"]
          blockArgEnd_def blockCommand_def substr_def Let_def)
  show ?thesis unfolding vn nv by (simp add: rev_map)
qed

section \<open>Scenarios of the command language\<close>

text \<open>
  C1 (as amended). Over the full range of the single input byte \<open>0xB0\<close>, the block
  program \<^verbatim>\<open>[vn]8\<close> (bit-reverse, then invert) produces the byte \<open>0xF2\<close>, and
  \<^verbatim>\<open>[nv]8\<close> (invert, then bit-reverse) produces \<open>0xF2\<close> as well: on this input the
  two chain orders give the same output.
\<close>

theorem C1_block_chain_orders:
  "transform [0xB0] ''[vn]8'' 0 0 False False = Some (Inr [0xF2])
   \<and> transform [0xB0] ''[nv]8'' 0 0 False False = Some (Inr [0xF2])"
  by code_simp

text \<open>
  C1 as stated fails: \<^verbatim>\<open>[nv]8\<close> on \<open>0xB0\<close> does not produce \<open>0x4F\<close>.
\<close>

theorem C1_counterexample:
  "transform [0xB0] ''[nv]8'' 0 0 False False \<noteq> Some (Inr [0x4F])"
  by code_simp

text \<open>
  C2 (as amended). Over the full range of the nine bytes \<open>41 42 43 41 42 43 41 42 43\<close>
  the program \<^verbatim>\<open>s16t8\<close> produces exactly the three bytes \<open>43 43 43\<close>: it skips two
  bytes and takes the third of every group.
\<close>

theorem C2_skip_take:
  "transform [0x41, 0x42, 0x43, 0x41, 0x42, 0x43, 0x41, 0x42, 0x43] ''s16t8'' 0 0 False False
   = Some (Inr [0x43, 0x43, 0x43])"
  by code_simp

text \<open>C2 as stated fails: the output is not \<open>42 42 42\<close>.\<close>

theorem C2_counterexample:
  "transform [0x41, 0x42, 0x43, 0x41, 0x42, 0x43, 0x41, 0x42, 0x43] ''s16t8'' 0 0 False False
   \<noteq> Some (Inr [0x42, 0x42, 0x42])"
  by code_simp

section \<open>Range handling\<close>

text \<open>
  C5. An end bit that is at most 0 or beyond the \<open>8 \<times> len\<close> input bits is replaced by
  \<open>8 \<times> len\<close>; a start bit outside \<open>[0, 8 \<times> len]\<close> is the error "start bit is out of
  bounds"; a start bit beyond the (normalised) end bit is the error "start bit cannot
  be greater than end bit". With start 4 and end 2 the call fails with one of these two
  range errors whatever the input bytes are.
\<close>

theorem C5_range_handling:
  "(endBit \<le> 0 \<or> endBit > 8 * int (length data)
      \<longrightarrow> applyEdits data commands startBit endBit verbose verboseOnce
          = applyEdits data commands startBit (8 * int (length data)) verbose verboseOnce)
   \<and> (startBit < 0 \<or> startBit > 8 * int (length data)
      \<longrightarrow> applyEdits data commands startBit endBit verbose verboseOnce
          = Some ([], Inl (StartOutOfBounds startBit)))
   \<and> (0 \<le> startBit \<and> startBit \<le> 8 * int (length data) \<and> 0 < endBit
       \<and> endBit \<le> 8 * int (length data) \<and> startBit > endBit
      \<longrightarrow> applyEdits data commands startBit endBit verbose verboseOnce
          = Some ([], Inl (StartGreaterThanEnd startBit endBit)))
   \<and> applyEdits data commands 4 2 verbose verboseOnce
       = Some ([], Inl (if data = [] then StartOutOfBounds 4 else StartGreaterThanEnd 4 2))"
proof (intro conjI impI)
  assume "endBit \<le> 0 \<or> endBit > 8 * int (length data)"
  then show "applyEdits data commands startBit endBit verbose verboseOnce
          = applyEdits data commands startBit (8 * int (length data)) verbose verboseOnce"
    by (auto simp: applyEdits_def Let_def)
next
  assume "startBit < 0 \<or> startBit > 8 * int (length data)"
  then show "applyEdits data commands startBit endBit verbose verboseOnce
          = Some ([], Inl (StartOutOfBounds startBit))"
    by (auto simp: applyEdits_def Let_def)
next
  assume "0 \<le> startBit \<and> startBit \<le> 8 * int (length data) \<and> 0 < endBit
       \<and> endBit \<le> 8 * int (length data) \<and> startBit > endBit"
  then show "applyEdits data commands startBit endBit verbose verboseOnce
          = Some ([], Inl (StartGreaterThanEnd startBit endBit))"
    by (auto simp: applyEdits_def Let_def)
next
  show "applyEdits data commands 4 2 verbose verboseOnce
       = Some ([], Inl (if data = [] then StartOutOfBounds 4 else StartGreaterThanEnd 4 2))"
    by (cases data) (auto simp: applyEdits_def Let_def)
qed

theorem C5_range_handling_witness:
  "applyEdits [1] ''t8'' 0 0 False False = applyEdits [1] ''t8'' 0 8 False False
   \<and> applyEdits [1] ''t8'' 9 5 False False = Some ([], Inl (StartOutOfBounds 9))
   \<and> applyEdits [1] ''t8'' 4 2 False False = Some ([], Inl (StartGreaterThanEnd 4 2))"
  using C5_range_handling [of 0 "[1]" "''t8''" 0 False False]
    C5_range_handling [of 5 "[1]" "''t8''" 9 False False]
    C5_range_handling [of 2 "[1]" "''t8''" 4 False False]
  by simp

section \<open>The diagnostics do not influence the result\<close>

text \<open>
  Each level of the interpreter returns the same error or value whatever the logging
  flag and the diagnostic stream are: the block loop, one command, one pass, and all
  passes.
\<close>

lemma blockLoop_verbose_False:
  "snd (blockLoop subProgram verbose cmdIdx pc lg) = snd (blockLoop subProgram False cmdIdx pc lg')"
proof (induction subProgram verbose cmdIdx pc lg arbitrary: lg' rule: blockLoop.induct)
  case (1 subProgram verbose cmdIdx processedChunk lg)
  show ?case
  proof (cases "cmdIdx < length subProgram")
    case False
    then show ?thesis
      by (simp add: blockLoop.simps [of subProgram _ cmdIdx])
  next
    case True
    let ?command = "subProgram ! cmdIdx"
    let ?next = "blockArgEnd subProgram ?command (cmdIdx + 1)"
    let ?arg = "substr subProgram (cmdIdx + 1) ?next"
    show ?thesis
    proof (cases "blockCommand ?command ?arg processedChunk")
      case (Inl e)
      with True show ?thesis
        by (simp add: blockLoop.simps [of subProgram _ cmdIdx] Let_def)
    next
      case (Inr pc')
      let ?lg1 = "if verbose
          then lg @ [ApplyingBlockCommand (commandName ?command)
                 (if ?arg \<noteq> [] then '' with arg '' @ [CHR 0x22] @ ?arg @ [CHR 0x22] else ?arg)]
          else lg"
      have "snd (blockLoop subProgram verbose ?next pc' ?lg1) = snd (blockLoop subProgram False ?next pc' lg')"
        by (rule "1.IH" [OF True refl refl refl refl refl Inr])
      with True Inr show ?thesis
        by (simp add: blockLoop.simps [of subProgram _ cmdIdx] Let_def
                 split del: if_split cong: if_cong)
    qed
  qed
qed

lemma applyBlockOps_verbose_False:
  "snd (applyBlockOps chunk subProgram verbose lg) = snd (applyBlockOps chunk subProgram False lg')"
  unfolding applyBlockOps_def by (rule blockLoop_verbose_False)

lemma execBlock_verbose_False:
  "snd (execBlock inputBits commands endBit shouldLog cmdIdx inputPos out lg)
   = snd (execBlock inputBits commands endBit False cmdIdx inputPos out lg')"
proof (cases "IndexRune (drop (cmdIdx + 1) commands) (CHR '']'')")
  case None
  then show ?thesis by (simp add: execBlock_def)
next
  case (Some k)
  let ?sub = "substr commands (cmdIdx + 1) (k + (cmdIdx + 1))"
  let ?numStart = "k + (cmdIdx + 1) + 1"
  let ?numEnd = "scanDigits commands ?numStart"
  show ?thesis
  proof (cases "?numStart = ?numEnd")
    case True
    with Some show ?thesis by (simp add: execBlock_def Let_def)
  next
    case ne: False
    show ?thesis
    proof (cases "Atoi (substr commands ?numStart ?numEnd)")
      case None
      with Some ne show ?thesis by (simp add: execBlock_def Let_def)
    next
      case count: (Some count)
      show ?thesis
      proof (cases "slice inputBits inputPos (clampEnd inputPos count endBit)")
        case (Inl e)
        with Some ne count show ?thesis by (simp add: execBlock_def Let_def)
      next
        case (Inr chunk)
        let ?lg1 = "if shouldLog then lg @ [ProcessingBlock ?sub count inputPos] else lg"
        obtain lgA rA where A: "applyBlockOps chunk ?sub shouldLog ?lg1 = (lgA, rA)"
          by (cases "applyBlockOps chunk ?sub shouldLog ?lg1") auto
        obtain lgB rB where B: "applyBlockOps chunk ?sub False lg' = (lgB, rB)"
          by (cases "applyBlockOps chunk ?sub False lg'") auto
        have "rA = rB"
          using applyBlockOps_verbose_False [of chunk ?sub shouldLog ?lg1 lg'] A B by simp
        with B have B': "applyBlockOps chunk ?sub False lg' = (lgB, rA)" by simp
        from Some ne count Inr A B' show ?thesis
          by (cases rA)
             (simp_all add: execBlock_def Let_def split del: if_split cong: if_cong)
      qed
    qed
  qed
qed

lemma snd_case_sum_pair:
  "snd (case r of Inl e \<Rightarrow> (a, Inl e) | Inr (p, q) \<Rightarrow> (b p q, Inr (h p q)))
   = (case r of Inl e \<Rightarrow> Inl e | Inr (p, q) \<Rightarrow> Inr (h p q))"
  by (cases r) auto

lemma execSimple_verbose_False:
  "snd (execSimple inputBits commands endBit shouldLog cmdIdx inputPos out lg)
   = snd (execSimple inputBits commands endBit False cmdIdx inputPos out lg')"
  by (simp only: execSimple_def Let_def snd_case_sum_pair)

lemma execCommand_verbose_False:
  "snd (execCommand inputBits commands endBit shouldLog cmdIdx inputPos out lg)
   = snd (execCommand inputBits commands endBit False cmdIdx inputPos out lg')"
  using execBlock_verbose_False [of inputBits commands endBit shouldLog cmdIdx inputPos out lg lg']
        execSimple_verbose_False [of inputBits commands endBit shouldLog cmdIdx inputPos out lg lg']
  by (cases "commands ! cmdIdx = CHR ''[''") (simp_all add: execCommand_def)

lemma innerLoop_verbose_False:
  "snd (innerLoop inputBits commands endBit shouldLog cmdIdx inputPos out lg)
   = snd (innerLoop inputBits commands endBit False cmdIdx inputPos out lg')"
proof (induction inputBits commands endBit shouldLog cmdIdx inputPos out lg arbitrary: lg'
       rule: innerLoop.induct)
  case (1 inputBits commands endBit shouldLog cmdIdx inputPos out lg)
  let ?A = "execCommand inputBits commands endBit shouldLog cmdIdx inputPos out lg"
  let ?B = "execCommand inputBits commands endBit False cmdIdx inputPos out lg'"
  have eq: "snd ?A = snd ?B" by (rule execCommand_verbose_False)
  show ?case
  proof (cases "cmdIdx < length commands \<and> \<not> endBit \<le> inputPos")
    case False
    then show ?thesis
      by (auto simp: innerLoop.simps [of inputBits commands endBit _ cmdIdx inputPos out])
  next
    case True
    show ?thesis
    proof (cases "snd ?A")
      case (Inl e)
      obtain lgA where A: "?A = (lgA, Inl e)" using Inl by (cases ?A) simp
      obtain lgB where B: "?B = (lgB, Inl e)" using Inl eq by (cases ?B) simp
      from True A B show ?thesis
        by (simp add: innerLoop.simps [of inputBits commands endBit _ cmdIdx inputPos out])
    next
      case (Inr r)
      obtain lgA where A: "?A = (lgA, Inr r)" using Inr by (cases ?A) simp
      obtain lgB where B: "?B = (lgB, Inr r)" using Inr eq by (cases ?B) simp
      obtain cmdIdx' inputPos' out' where r: "r = (cmdIdx', inputPos', out')"
        by (cases r) auto
      have "snd (innerLoop inputBits commands endBit shouldLog cmdIdx' inputPos' out' lgA)
          = snd (innerLoop inputBits commands endBit False cmdIdx' inputPos' out' lgB)"
        using True by (intro "1.IH" [OF _ _ A [symmetric] refl r [symmetric] refl]) simp_all
      with True A B r show ?thesis
        by (simp add: innerLoop.simps [of inputBits commands endBit _ cmdIdx inputPos out])
    qed
  qed
qed

lemma innerLoop_verbose:
  "snd (innerLoop inputBits commands endBit shouldLog cmdIdx inputPos out lg)
   = snd (innerLoop inputBits commands endBit shouldLog' cmdIdx inputPos out lg')"
  using innerLoop_verbose_False [of inputBits commands endBit shouldLog cmdIdx inputPos out lg lg']
    innerLoop_verbose_False [of inputBits commands endBit shouldLog' cmdIdx inputPos out lg' lg']
  by simp

lemma outerLoop_verbose_dir:
  assumes "outerLoop inputBits commands endBit verbose verboseOnce st = Some y"
  shows "\<forall>logPrinted' lg'. \<exists>lgr.
           outerLoop inputBits commands endBit verbose' verboseOnce'
             (logPrinted', fst (snd st), fst (snd (snd st)), lg') = Some (lgr, snd y)"
proof (rule outerLoop.raw_induct
    [where P = "\<lambda>inputBits commands endBit verbose verboseOnce st y.
       \<forall>logPrinted' lg'. \<exists>lgr.
           outerLoop inputBits commands endBit verbose' verboseOnce'
             (logPrinted', fst (snd st), fst (snd (snd st)), lg') = Some (lgr, snd y)",
     OF _ assms], goal_cases)
  case (1 f inputBits commands endBit verbose verboseOnce st y)
  note IH = "1"(1) and body = "1"(2)
  obtain logPrinted inputPos out lg where st: "st = (logPrinted, inputPos, out, lg)"
    by (cases st) auto
  show ?case
  proof (intro allI)
    fix logPrinted' :: bool and lg' :: "log_entry list"
    let ?sl = "verbose \<and> (\<not> verboseOnce \<or> \<not> logPrinted)"
    let ?sl' = "verbose' \<and> (\<not> verboseOnce' \<or> \<not> logPrinted')"
    let ?A = "innerLoop inputBits commands endBit ?sl 0 inputPos out lg"
    let ?B = "innerLoop inputBits commands endBit ?sl' 0 inputPos out lg'"
    have eq: "snd ?A = snd ?B" by (rule innerLoop_verbose)
    show "\<exists>lgr. outerLoop inputBits commands endBit verbose' verboseOnce'
             (logPrinted', fst (snd st), fst (snd (snd st)), lg') = Some (lgr, snd y)"
    proof (cases "inputPos < endBit \<and> length commands \<noteq> 0")
      case False
      with body st show ?thesis
        by (subst outerLoop.simps) (auto split: if_splits)
    next
      case True
      show ?thesis
      proof (cases "snd ?A")
        case (Inl e)
        obtain lgA where A: "?A = (lgA, Inl e)" using Inl by (cases ?A) simp
        obtain lgB where B: "?B = (lgB, Inl e)" using Inl eq by (cases ?B) simp
        from body st True A have "y = (lgA, Inl e)" by simp
        with st True B show ?thesis
          by (subst outerLoop.simps) simp
      next
        case (Inr r)
        obtain lgA where A: "?A = (lgA, Inr r)" using Inr by (cases ?A) simp
        obtain lgB where B: "?B = (lgB, Inr r)" using Inr eq by (cases ?B) simp
        obtain inputPos' out' where r: "r = (inputPos', out')" by (cases r) auto
        from body st True A r
        have "f inputBits commands endBit verbose verboseOnce (True, inputPos', out', lgA) = Some y"
          by simp
        from IH [OF this]
        obtain lgr where "outerLoop inputBits commands endBit verbose' verboseOnce'
             (True, inputPos', out', lgB) = Some (lgr, snd y)"
          by auto
        with st True B r show ?thesis
          by (subst outerLoop.simps) simp
      qed
    qed
  qed
qed

lemma outerLoop_verbose:
  "map_option snd (outerLoop inputBits commands endBit verbose verboseOnce (lp, inputPos, out, lg))
   = map_option snd (outerLoop inputBits commands endBit verbose' verboseOnce' (lp', inputPos, out, lg'))"
proof (cases "outerLoop inputBits commands endBit verbose verboseOnce (lp, inputPos, out, lg)")
  case None
  show ?thesis
  proof (cases "outerLoop inputBits commands endBit verbose' verboseOnce' (lp', inputPos, out, lg')")
    case None': None
    with None show ?thesis by simp
  next
    case (Some y)
    from outerLoop_verbose_dir [OF Some, of verbose verboseOnce, rule_format, of lp lg] None
    show ?thesis by simp
  qed
next
  case (Some y)
  from outerLoop_verbose_dir [OF Some, of verbose' verboseOnce', rule_format, of lp' lg'] Some
  show ?thesis by auto
qed

text \<open>
  C8. The two verbosity flags never influence what the transform returns: with any
  combination of the flags the call returns the same bytes or the same error as with
  both flags off, and it fails to return in exactly the same cases. The transform is a
  function of its arguments, so two runs with the same arguments agree.
\<close>

theorem C8_verbosity_flags:
  "transform data commands startBit endBit verbose verboseOnce
   = transform data commands startBit endBit False False"
proof -
  let ?len = "int (length (bytesToBits data))"
  let ?e = "if endBit \<le> 0 \<or> endBit > ?len then ?len else endBit"
  let ?lg = "if verbose then [StartingEdit ?len startBit ?e] else []"
  let ?A = "outerLoop (bytesToBits data) commands ?e verbose verboseOnce (False, startBit, [], ?lg)"
  let ?B = "outerLoop (bytesToBits data) commands ?e False False (False, startBit, [], [])"
  have eq: "map_option snd ?A = map_option snd ?B"
    by (rule outerLoop_verbose)
  have pack: "map_option snd (case X of None \<Rightarrow> None
                 | Some (lg', Inl e) \<Rightarrow> Some (lg', Inl e)
                 | Some (lg', Inr outputBits) \<Rightarrow> Some (lg', Inr (bitsToBytes outputBits)))
      = map_option (map_sum id bitsToBytes) (map_option snd X)" for X
    by (auto split: option.splits sum.splits)
  show ?thesis
  proof (cases "startBit < 0 \<or> startBit > ?len")
    case True
    then show ?thesis
      by (simp add: transform_def applyEdits_def Let_def)
  next
    case inb: False
    show ?thesis
    proof (cases "startBit > ?e")
    case True
    with inb show ?thesis
      by (simp add: transform_def applyEdits_def Let_def split del: if_split cong: if_cong)
  next
    case False
    with inb have "transform data commands startBit endBit verbose verboseOnce
        = map_option (map_sum id bitsToBytes) (map_option snd ?A)"
      unfolding transform_def applyEdits_def Let_def
      by (simp add: pack split del: if_split cong: if_cong)
    moreover from inb False have "transform data commands startBit endBit False False
        = map_option (map_sum id bitsToBytes) (map_option snd ?B)"
      unfolding transform_def applyEdits_def Let_def
      by (simp add: pack split del: if_split cong: if_cong)
    ultimately show ?thesis using eq by simp
  qed
  qed
qed

theorem C8_verbosity_flags_witness:
  "transform [0xB0] ''[vn]8'' 0 0 True True = Some (Inr [0xF2])"
proof -
  have "transform [0xB0] ''[vn]8'' 0 0 False False = Some (Inr [0xF2])"
    by code_simp
  with C8_verbosity_flags [of "[0xB0]" "''[vn]8''" 0 0 True True] show ?thesis
    by simp
qed

section \<open>Programs that never advance the cursor\<close>

text \<open>
  A pass of the program \<^verbatim>\<open>i1\<close> appends one bit and leaves the cursor where it was;
  a pass of \<^verbatim>\<open>t0\<close> changes nothing at all.
\<close>

lemma pass_insert_only:
  "inputPos < endBit \<Longrightarrow>
   innerLoop inputBits ''i1'' endBit False 0 inputPos out lg = (lg, Inr (inputPos, out @ [1]))"
  by (simp add: innerLoop.simps findNext.simps execCommand_def execSimple_def execInsert_def
        substr_def isBinaryChar_def Let_def)

lemma pass_take_zero:
  "0 \<le> inputPos \<Longrightarrow> inputPos < endBit \<Longrightarrow> endBit \<le> int (length inputBits) \<Longrightarrow>
   inputPos < 2 ^ 62 \<Longrightarrow>
   innerLoop inputBits ''t0'' endBit False 0 inputPos out lg = (lg, Inr (inputPos, out))"
  by (simp add: innerLoop.simps findNext.simps execCommand_def execSimple_def execNumeric_def
        substr_def Atoi_def isDigit_def clampEnd_def wrap64_def slice_def Let_def
        signed_take_bit_int_eq_self)

lemma outerLoop_insert_only_diverges:
  assumes "outerLoop inputBits commands endBit verbose verboseOnce st = Some y"
  shows "\<not> (commands = ''i1'' \<and> \<not> verbose \<and> fst (snd st) < endBit)"
proof (rule outerLoop.raw_induct
    [where P = "\<lambda>inputBits commands endBit verbose verboseOnce st y.
       \<not> (commands = ''i1'' \<and> \<not> verbose \<and> fst (snd st) < endBit)",
     OF _ assms], goal_cases)
  case (1 f inputBits commands endBit verbose verboseOnce st y)
  note IH = "1"(1) and body = "1"(2)
  obtain logPrinted inputPos out lg where st: "st = (logPrinted, inputPos, out, lg)"
    by (cases st) auto
  show ?case
  proof
    assume a: "commands = ''i1'' \<and> \<not> verbose \<and> fst (snd st) < endBit"
    with st have pos: "inputPos < endBit" by simp
    from body st a pos
    have "f inputBits commands endBit verbose verboseOnce (True, inputPos, out @ [1], lg) = Some y"
      by (simp add: pass_insert_only)
    from IH [OF this] a st show False by simp
  qed
qed

lemma outerLoop_take_zero_diverges:
  assumes "outerLoop inputBits commands endBit verbose verboseOnce st = Some y"
  shows "\<not> (commands = ''t0'' \<and> \<not> verbose \<and> 0 \<le> fst (snd st) \<and> fst (snd st) < endBit
            \<and> endBit \<le> int (length inputBits) \<and> fst (snd st) < 2 ^ 62)"
proof (rule outerLoop.raw_induct
    [where P = "\<lambda>inputBits commands endBit verbose verboseOnce st y.
       \<not> (commands = ''t0'' \<and> \<not> verbose \<and> 0 \<le> fst (snd st) \<and> fst (snd st) < endBit
            \<and> endBit \<le> int (length inputBits) \<and> fst (snd st) < 2 ^ 62)",
     OF _ assms], goal_cases)
  case (1 f inputBits commands endBit verbose verboseOnce st y)
  note IH = "1"(1) and body = "1"(2)
  obtain logPrinted inputPos out lg where st: "st = (logPrinted, inputPos, out, lg)"
    by (cases st) auto
  show ?case
  proof
    assume a: "commands = ''t0'' \<and> \<not> verbose \<and> 0 \<le> fst (snd st) \<and> fst (snd st) < endBit
            \<and> endBit \<le> int (length inputBits) \<and> fst (snd st) < 2 ^ 62"
    with st have pos: "0 \<le> inputPos" "inputPos < endBit" "endBit \<le> int (length inputBits)"
       "inputPos < 2 ^ 62" by simp_all
    from body st a pos
    have "f inputBits commands endBit verbose verboseOnce (True, inputPos, out, lg) = Some y"
      by (simp add: pass_take_zero)
    from IH [OF this] a st show False by simp
  qed
qed

text \<open>
  C4 fails on the code. On the one-byte input \<open>00\<close> with the full range, the
  Insert-only program \<^verbatim>\<open>i1\<close> and the zero-count program \<^verbatim>\<open>t0\<close> never return:
  the outer loop runs while the cursor is before the end of the range, and no pass
  moves the cursor.
\<close>

theorem C4_insert_only_never_returns:
  "transform [0x00] ''i1'' 0 0 False False = None
   \<and> transform [0x00] ''t0'' 0 0 False False = None"
proof
  have "outerLoop (bytesToBits [0x00]) ''i1'' 8 False False (False, 0, [], []) = None"
  proof (cases "outerLoop (bytesToBits [0x00]) ''i1'' 8 False False (False, 0, [], [])")
    case (Some y)
    from outerLoop_insert_only_diverges [OF Some] show ?thesis by simp
  qed simp
  then show "transform [0x00] ''i1'' 0 0 False False = None"
    by (simp add: transform_def applyEdits_def Let_def)
next
  have "outerLoop (bytesToBits [0x00]) ''t0'' 8 False False (False, 0, [], []) = None"
  proof (cases "outerLoop (bytesToBits [0x00]) ''t0'' 8 False False (False, 0, [], [])")
    case (Some y)
    from outerLoop_take_zero_diverges [OF Some] show ?thesis by simp
  qed simp
  then show "transform [0x00] ''t0'' 0 0 False False = None"
    by (simp add: transform_def applyEdits_def Let_def)
qed

section \<open>The cursor\<close>

text \<open>
  A command that slices the input succeeds only if the slice bounds are in order, and
  the upper bound is clamped to the end of the range.
\<close>

lemma clampEnd_le: "clampEnd inputPos count endBit \<le> endBit"
  by (simp add: clampEnd_def Let_def)

lemma slice_Inr_bounds: "slice xs lo hi = Inr chunk \<Longrightarrow> 0 \<le> lo \<and> lo \<le> hi \<and> hi \<le> int (length xs)"
  by (auto simp: slice_def split: if_splits)

lemma execNumeric_cursor:
  assumes "execNumeric command count inputBits endBit inputPos out = Inr (inputPos', out')"
    and "command \<noteq> CHR ''s''" and "inputPos \<le> endBit"
  shows "inputPos \<le> inputPos' \<and> inputPos' \<le> endBit"
  using assms clampEnd_le [of inputPos count endBit]
  by (auto simp: execNumeric_def Let_def split: if_splits sum.splits dest!: slice_Inr_bounds)

lemma execInsert_cursor:
  "execInsert argStr inputPos out = Inr (inputPos', out') \<Longrightarrow> inputPos' = inputPos"
  by (auto simp: execInsert_def split: if_splits)

lemma execLogical_cursor:
  assumes "execLogical command argStr inputBits endBit inputPos out = Inr (inputPos', out')"
  shows "inputPos \<le> inputPos' \<and> inputPos' \<le> endBit"
proof -
  from assms obtain countStr pattern count chunk where
    "slice inputBits inputPos (clampEnd inputPos count endBit) = Inr chunk"
    "inputPos' = clampEnd inputPos count endBit"
    by (auto simp: execLogical_def Let_def split: option.splits if_splits sum.splits)
  then show ?thesis
    using clampEnd_le [of inputPos count endBit] by (auto dest!: slice_Inr_bounds)
qed

lemma execSimple_cursor:
  assumes "execSimple inputBits commands endBit shouldLog cmdIdx inputPos out lg
           = (lg', Inr (cmdIdx', inputPos', out'))"
    and "commands ! cmdIdx \<noteq> CHR ''s''" and "inputPos \<le> endBit"
  shows "inputPos \<le> inputPos' \<and> inputPos' \<le> endBit"
proof -
  let ?command = "commands ! cmdIdx"
  let ?arg = "substr commands (cmdIdx + 1) (findNext ''tsnivxaob['' commands (cmdIdx + 1))"
  let ?r = "if ?command \<in> set ''tsnvb'' then
                 (case Atoi ?arg of
                    None \<Rightarrow> Inl (InvalidNumericArgument ?command ?arg)
                  | Some count \<Rightarrow> execNumeric ?command count inputBits endBit inputPos out)
               else if ?command = CHR ''i'' then execInsert ?arg inputPos out
               else if ?command \<in> set ''xao'' then
                 execLogical ?command ?arg inputBits endBit inputPos out
               else Inl (UnknownCommand ?command)"
  from assms(1) have r: "?r = Inr (inputPos', out')"
    unfolding execSimple_def Let_def
    by (cases ?r) (auto split: prod.splits)
  show ?thesis
  proof (cases "?command \<in> set ''tsnvb''")
    case True
    with r obtain count where "execNumeric ?command count inputBits endBit inputPos out = Inr (inputPos', out')"
      by (auto split: option.splits)
    from execNumeric_cursor [OF this assms(2,3)] show ?thesis .
  next
    case nt: False
    show ?thesis
    proof (cases "?command = CHR ''i''")
      case True
      with nt r have "execInsert ?arg inputPos out = Inr (inputPos', out')" by simp
      from execInsert_cursor [OF this] assms(3) show ?thesis by simp
    next
      case False
      with nt r have "execLogical ?command ?arg inputBits endBit inputPos out = Inr (inputPos', out')"
        by (simp split: if_splits)
      from execLogical_cursor [OF this] show ?thesis .
    qed
  qed
qed

lemma execBlock_cursor:
  assumes "execBlock inputBits commands endBit shouldLog cmdIdx inputPos out lg
           = (lg', Inr (cmdIdx', inputPos', out'))"
  shows "inputPos \<le> inputPos' \<and> inputPos' \<le> endBit"
proof -
  from assms obtain count chunk where
    "slice inputBits inputPos (clampEnd inputPos count endBit) = Inr chunk"
    "inputPos' = clampEnd inputPos count endBit"
    unfolding execBlock_def Let_def
    by (auto split: option.splits if_splits sum.splits prod.splits)
  then show ?thesis
    using clampEnd_le [of inputPos count endBit] by (auto dest!: slice_Inr_bounds)
qed

lemma execCommand_cursor:
  assumes "execCommand inputBits commands endBit shouldLog cmdIdx inputPos out lg
           = (lg', Inr (cmdIdx', inputPos', out'))"
    and "commands ! cmdIdx \<noteq> CHR ''s''" and "inputPos \<le> endBit"
  shows "inputPos \<le> inputPos' \<and> inputPos' \<le> endBit"
proof (cases "commands ! cmdIdx = CHR ''[''")
  case True
  with assms(1) have "execBlock inputBits commands endBit shouldLog cmdIdx inputPos out lg
           = (lg', Inr (cmdIdx', inputPos', out'))"
    by (simp add: execCommand_def)
  from execBlock_cursor [OF this] show ?thesis .
next
  case False
  with assms(1) have "execSimple inputBits commands endBit shouldLog cmdIdx inputPos out lg
           = (lg', Inr (cmdIdx', inputPos', out'))"
    by (simp add: execCommand_def)
  from execSimple_cursor [OF this assms(2,3)] show ?thesis .
qed

lemma execCommand_skip:
  assumes "commands ! cmdIdx = CHR ''s''"
    and "Atoi (substr commands (cmdIdx + 1) (findNext ''tsnivxaob['' commands (cmdIdx + 1))) = Some count"
  shows "snd (execCommand inputBits commands endBit shouldLog cmdIdx inputPos out lg)
         = Inr (findNext ''tsnivxaob['' commands (cmdIdx + 1), wrap64 (inputPos + count), out)"
  using assms by (simp add: execCommand_def execSimple_def execNumeric_def Let_def)

lemma wrap64_id: "- (2 ^ 63) \<le> x \<Longrightarrow> x < 2 ^ 63 \<Longrightarrow> wrap64 x = x"
  by (simp add: wrap64_def signed_take_bit_int_eq_self)


lemma transform_initial_cursor:
  assumes "0 \<le> startBit" "startBit \<le> endBit" "0 < endBit" "endBit \<le> 8 * int (length data)"
  shows "applyEdits data commands startBit endBit verbose verboseOnce
     = (case outerLoop (bytesToBits data) commands endBit verbose verboseOnce
               (False, startBit, [],
                if verbose then [StartingEdit (8 * int (length data)) startBit endBit] else []) of
          None \<Rightarrow> None
        | Some (lg', Inl e) \<Rightarrow> Some (lg', Inl e)
        | Some (lg', Inr outputBits) \<Rightarrow> Some (lg', Inr (bitsToBytes outputBits)))"
  using assms by (simp add: applyEdits_def Let_def split del: if_split cong: if_cong)

lemma execCommand_insert_cursor:
  assumes "commands ! cmdIdx = CHR ''i''"
    and "execCommand inputBits commands endBit shouldLog cmdIdx inputPos out lg
         = (lg', Inr (cmdIdx', inputPos', out'))"
  shows "inputPos' = inputPos"
proof -
  let ?arg = "substr commands (cmdIdx + 1) (findNext ''tsnivxaob['' commands (cmdIdx + 1))"
  from assms have "execInsert ?arg inputPos out = Inr (inputPos', out')"
    unfolding execCommand_def execSimple_def Let_def
    by (cases "execInsert ?arg inputPos out") (auto split: prod.splits)
  then show ?thesis by (rule execInsert_cursor)
qed

lemma innerLoop_stop:
  "endBit \<le> inputPos \<Longrightarrow>
   innerLoop inputBits commands endBit shouldLog cmdIdx inputPos out lg = (lg, Inr (inputPos, out))"
  by (subst innerLoop.simps) simp

lemma outerLoop_stop:
  "endBit \<le> inputPos \<Longrightarrow>
   outerLoop inputBits commands endBit verbose verboseOnce (logPrinted, inputPos, out, lg)
   = Some (lg, Inr out)"
  by (subst outerLoop.simps) simp

lemma innerLoop_step:
  "cmdIdx < length commands \<Longrightarrow> inputPos < endBit \<Longrightarrow>
   innerLoop inputBits commands endBit shouldLog cmdIdx inputPos out lg
   = (case execCommand inputBits commands endBit shouldLog cmdIdx inputPos out lg of
        (lg', Inl e) \<Rightarrow> (lg', Inl e)
      | (lg', Inr (cmdIdx', inputPos', out')) \<Rightarrow>
          innerLoop inputBits commands endBit shouldLog cmdIdx' inputPos' out' lg')"
  by (subst innerLoop.simps) simp

lemma innerLoop_cursor:
  assumes "innerLoop inputBits commands endBit shouldLog cmdIdx inputPos out lg
           = (lg', Inr (inputPos', out'))"
    and "CHR ''s'' \<notin> set commands" and "inputPos \<le> endBit"
  shows "inputPos \<le> inputPos' \<and> inputPos' \<le> endBit"
  using assms
proof (induction inputBits commands endBit shouldLog cmdIdx inputPos out lg
       rule: innerLoop.induct)
  case (1 inputBits commands endBit shouldLog cmdIdx inputPos out lg)
  show ?case
  proof (cases "cmdIdx < length commands \<and> \<not> endBit \<le> inputPos")
    case False
    with "1.prems" show ?thesis
      by (auto simp: innerLoop.simps [of inputBits commands endBit _ cmdIdx inputPos out]
               split: if_splits)
  next
    case True
    let ?A = "execCommand inputBits commands endBit shouldLog cmdIdx inputPos out lg"
    from True "1.prems"(2) have ns: "commands ! cmdIdx \<noteq> CHR ''s''"
      by (metis nth_mem)
    obtain lgA r where A: "?A = (lgA, r)" by (cases ?A) auto
    show ?thesis
    proof (cases r)
      case (Inl e)
      with True A "1.prems"(1) show ?thesis
        by (simp add: innerLoop.simps [of inputBits commands endBit _ cmdIdx inputPos out])
    next
      case (Inr t)
      obtain cmdIdx1 inputPos1 out1 where t: "t = (cmdIdx1, inputPos1, out1)"
        by (cases t) auto
      from A Inr t have A': "?A = (lgA, Inr (cmdIdx1, inputPos1, out1))" by simp
      from execCommand_cursor [OF A' ns "1.prems"(3)]
      have step: "inputPos \<le> inputPos1" "inputPos1 \<le> endBit" by simp_all
      from True A' "1.prems"(1)
      have rest: "innerLoop inputBits commands endBit shouldLog cmdIdx1 inputPos1 out1 lgA
                  = (lg', Inr (inputPos', out'))"
        by (simp add: innerLoop.simps [of inputBits commands endBit _ cmdIdx inputPos out])
      have "inputPos1 \<le> inputPos' \<and> inputPos' \<le> endBit"
        using True
        by (intro "1.IH" [OF _ _ A [symmetric] Inr t [symmetric] refl rest "1.prems"(2) step(2)])
           simp_all
      with step show ?thesis by simp
    qed
  qed
qed

text \<open>
  C3 (as amended). The cursor starts at the start of the range. Every command other
  than Skip that completes, run with the cursor at or before the end of the range,
  leaves the cursor at or after its previous position and at or before the end of the
  range; Insert leaves it where it was. Hence a pass of a program without Skip ends
  with the cursor between its position at the start of the pass and the end of the
  range. Skip adds its count to the cursor with no clamp: with a non-negative count
  that does not overflow, the cursor advances by exactly the count, also beyond the end
  of the range. A pass runs its next command only while the cursor is before the end of
  the range: once the cursor is at or beyond it, the pass returns at once and the outer
  loop returns the output.
\<close>

theorem C3_cursor:
  "(0 \<le> startBit \<and> startBit \<le> endBit \<and> 0 < endBit \<and> endBit \<le> 8 * int (length data)
      \<longrightarrow> applyEdits data commands startBit endBit verbose verboseOnce
          = (case outerLoop (bytesToBits data) commands endBit verbose verboseOnce
                    (False, startBit, [],
                     if verbose then [StartingEdit (8 * int (length data)) startBit endBit]
                     else []) of
               None \<Rightarrow> None
             | Some (lg', Inl e) \<Rightarrow> Some (lg', Inl e)
             | Some (lg', Inr outputBits) \<Rightarrow> Some (lg', Inr (bitsToBytes outputBits))))
   \<and> (execCommand inputBits commands endBit shouldLog cmdIdx inputPos out lg
         = (lg', Inr (cmdIdx', inputPos', out'))
       \<and> commands ! cmdIdx \<noteq> CHR ''s'' \<and> inputPos \<le> endBit
      \<longrightarrow> inputPos \<le> inputPos' \<and> inputPos' \<le> endBit)
   \<and> (commands ! cmdIdx = CHR ''s''
       \<and> Atoi (substr commands (cmdIdx + 1) (findNext ''tsnivxaob['' commands (cmdIdx + 1)))
           = Some count
      \<longrightarrow> snd (execCommand inputBits commands endBit shouldLog cmdIdx inputPos out lg)
          = Inr (findNext ''tsnivxaob['' commands (cmdIdx + 1), wrap64 (inputPos + count), out))
   \<and> (0 \<le> inputPos \<and> 0 \<le> count \<and> inputPos + count < 2 ^ 63
      \<longrightarrow> wrap64 (inputPos + count) = inputPos + count)
   \<and> (commands ! cmdIdx = CHR ''i''
       \<and> execCommand inputBits commands endBit shouldLog cmdIdx inputPos out lg
           = (lg', Inr (cmdIdx', inputPos', out'))
      \<longrightarrow> inputPos' = inputPos)
   \<and> (endBit \<le> inputPos
      \<longrightarrow> innerLoop inputBits commands endBit shouldLog cmdIdx inputPos out lg
            = (lg, Inr (inputPos, out))
          \<and> outerLoop inputBits commands endBit verbose verboseOnce
              (logPrinted, inputPos, out, lg) = Some (lg, Inr out))
   \<and> (cmdIdx < length commands \<and> inputPos < endBit
      \<longrightarrow> innerLoop inputBits commands endBit shouldLog cmdIdx inputPos out lg
          = (case execCommand inputBits commands endBit shouldLog cmdIdx inputPos out lg of
               (lg1, Inl e) \<Rightarrow> (lg1, Inl e)
             | (lg1, Inr (cmdIdx1, inputPos1, out1)) \<Rightarrow>
                 innerLoop inputBits commands endBit shouldLog cmdIdx1 inputPos1 out1 lg1))
   \<and> (innerLoop inputBits commands endBit shouldLog cmdIdx inputPos out lg
         = (lg', Inr (inputPos', out'))
       \<and> CHR ''s'' \<notin> set commands \<and> inputPos \<le> endBit
      \<longrightarrow> inputPos \<le> inputPos' \<and> inputPos' \<le> endBit)"
proof (intro conjI impI)
  assume "0 \<le> startBit \<and> startBit \<le> endBit \<and> 0 < endBit \<and> endBit \<le> 8 * int (length data)"
  then show "applyEdits data commands startBit endBit verbose verboseOnce
          = (case outerLoop (bytesToBits data) commands endBit verbose verboseOnce
                    (False, startBit, [],
                     if verbose then [StartingEdit (8 * int (length data)) startBit endBit]
                     else []) of
               None \<Rightarrow> None
             | Some (lg', Inl e) \<Rightarrow> Some (lg', Inl e)
             | Some (lg', Inr outputBits) \<Rightarrow> Some (lg', Inr (bitsToBytes outputBits)))"
    by (intro transform_initial_cursor) simp_all
next
  assume a: "execCommand inputBits commands endBit shouldLog cmdIdx inputPos out lg
         = (lg', Inr (cmdIdx', inputPos', out'))
       \<and> commands ! cmdIdx \<noteq> CHR ''s'' \<and> inputPos \<le> endBit"
  then have "inputPos \<le> inputPos' \<and> inputPos' \<le> endBit"
    by (intro execCommand_cursor [of inputBits commands endBit shouldLog cmdIdx inputPos out lg
          lg' cmdIdx' inputPos' out']) simp_all
  then show "inputPos \<le> inputPos'" "inputPos' \<le> endBit" by simp_all
next
  assume "commands ! cmdIdx = CHR ''s''
       \<and> Atoi (substr commands (cmdIdx + 1) (findNext ''tsnivxaob['' commands (cmdIdx + 1)))
           = Some count"
  then show "snd (execCommand inputBits commands endBit shouldLog cmdIdx inputPos out lg)
          = Inr (findNext ''tsnivxaob['' commands (cmdIdx + 1), wrap64 (inputPos + count), out)"
    by (intro execCommand_skip) simp_all
next
  assume "0 \<le> inputPos \<and> 0 \<le> count \<and> inputPos + count < 2 ^ 63"
  then show "wrap64 (inputPos + count) = inputPos + count"
    by (intro wrap64_id) simp_all
next
  assume "commands ! cmdIdx = CHR ''i''
       \<and> execCommand inputBits commands endBit shouldLog cmdIdx inputPos out lg
           = (lg', Inr (cmdIdx', inputPos', out'))"
  then show "inputPos' = inputPos"
    by (intro execCommand_insert_cursor [of commands cmdIdx inputBits endBit shouldLog inputPos
          out lg lg' cmdIdx' inputPos' out']) simp_all
next
  assume "endBit \<le> inputPos"
  then show "innerLoop inputBits commands endBit shouldLog cmdIdx inputPos out lg
            = (lg, Inr (inputPos, out))"
    by (rule innerLoop_stop)
next
  assume "endBit \<le> inputPos"
  then show "outerLoop inputBits commands endBit verbose verboseOnce
              (logPrinted, inputPos, out, lg) = Some (lg, Inr out)"
    by (rule outerLoop_stop)
next
  assume "cmdIdx < length commands \<and> inputPos < endBit"
  then show "innerLoop inputBits commands endBit shouldLog cmdIdx inputPos out lg
          = (case execCommand inputBits commands endBit shouldLog cmdIdx inputPos out lg of
               (lg1, Inl e) \<Rightarrow> (lg1, Inl e)
             | (lg1, Inr (cmdIdx1, inputPos1, out1)) \<Rightarrow>
                 innerLoop inputBits commands endBit shouldLog cmdIdx1 inputPos1 out1 lg1)"
    by (intro innerLoop_step) simp_all
next
  assume a: "innerLoop inputBits commands endBit shouldLog cmdIdx inputPos out lg
         = (lg', Inr (inputPos', out'))
       \<and> CHR ''s'' \<notin> set commands \<and> inputPos \<le> endBit"
  then have "inputPos \<le> inputPos' \<and> inputPos' \<le> endBit"
    by (intro innerLoop_cursor [of inputBits commands endBit shouldLog cmdIdx inputPos out lg
          lg' inputPos' out']) simp_all
  then show "inputPos \<le> inputPos'" "inputPos' \<le> endBit" by simp_all
qed

theorem C3_cursor_witness:
  "applyEdits [0x00] ''s16'' 0 8 False False
     = (case outerLoop (bytesToBits [0x00]) ''s16'' 8 False False (False, 0, [], []) of
          None \<Rightarrow> None
        | Some (lg', Inl e) \<Rightarrow> Some (lg', Inl e)
        | Some (lg', Inr outputBits) \<Rightarrow> Some (lg', Inr (bitsToBytes outputBits)))
   \<and> execCommand (bytesToBits [0x00]) ''t16'' 8 False 0 0 [] []
       = ([], Inr (3, 8, bytesToBits [0x00]))
   \<and> (0::int) \<le> 8 \<and> (8::int) \<le> 8
   \<and> snd (execCommand (bytesToBits [0x00]) ''s16'' 8 False 0 0 [] []) = Inr (3, wrap64 (0 + 16), [])
   \<and> wrap64 (0 + 16) = 0 + 16
   \<and> execCommand (bytesToBits [0x00]) ''i1t4'' 8 False 0 0 [] [] = ([], Inr (2, 0, [1]))
   \<and> innerLoop (bytesToBits [0x00]) ''s16'' 8 False 3 16 [] [] = ([], Inr (16, []))
   \<and> outerLoop (bytesToBits [0x00]) ''s16'' 8 False False (True, 16, [], []) = Some ([], Inr [])
   \<and> innerLoop (bytesToBits [0x00]) ''s16'' 8 False 0 0 [] []
       = innerLoop (bytesToBits [0x00]) ''s16'' 8 False 3 16 [] []
   \<and> innerLoop (bytesToBits [0x00]) ''i1t4'' 8 False 0 0 [] [] = ([], Inr (4, [1, 0, 0, 0, 0]))
   \<and> (0::int) \<le> 4 \<and> (4::int) \<le> 8"
proof -
  have t: "execCommand (bytesToBits [0x00]) ''t16'' 8 False 0 0 [] []
       = ([], Inr (3, 8, bytesToBits [0x00]))"
    by code_simp
  have f: "findNext ''tsnivxaob['' ''s16'' (0 + 1) = 3" by code_simp
  have a: "Atoi (substr ''s16'' (0 + 1) (findNext ''tsnivxaob['' ''s16'' (0 + 1))) = Some 16"
    by code_simp
  have s: "execCommand (bytesToBits [0x00]) ''s16'' 8 False 0 0 [] [] = ([], Inr (3, 16, []))"
    by code_simp
  have i: "execCommand (bytesToBits [0x00]) ''i1t4'' 8 False 0 0 [] [] = ([], Inr (2, 0, [1]))"
    by code_simp
  have p: "innerLoop (bytesToBits [0x00]) ''i1t4'' 8 False 0 0 [] []
           = ([], Inr (4, [1, 0, 0, 0, 0]))"
    by code_simp
  have ns: "CHR ''s'' \<notin> set ''i1t4''" by simp
  note w1 = C3_cursor [where startBit = 0 and endBit = 8 and data = "[0x00]"
          and commands = "''s16''"
          and verbose = False and verboseOnce = False and inputBits = "bytesToBits [0x00]"
          and shouldLog = False and cmdIdx = 0 and inputPos = 0 and out = "[]" and lg = "[]"
          and lg' = "[]" and cmdIdx' = 3 and inputPos' = 16 and out' = "[]" and count = 16]
  note w2 = C3_cursor [where startBit = 0 and endBit = 8 and data = "[0x00]"
          and commands = "''t16''"
          and verbose = False and verboseOnce = False and inputBits = "bytesToBits [0x00]"
          and shouldLog = False and cmdIdx = 0 and inputPos = 0 and out = "[]" and lg = "[]"
          and lg' = "[]" and cmdIdx' = 3 and inputPos' = 8 and out' = "bytesToBits [0x00]"
          and count = 16]
  note w3 = C3_cursor [where endBit = 8 and commands = "''s16''"
          and verbose = False and verboseOnce = False and inputBits = "bytesToBits [0x00]"
          and shouldLog = False and cmdIdx = 3 and inputPos = 16 and out = "[]" and lg = "[]"
          and logPrinted = True]
  note w4 = C3_cursor [where endBit = 8 and commands = "''i1t4''"
          and inputBits = "bytesToBits [0x00]"
          and shouldLog = False and cmdIdx = 0 and inputPos = 0 and out = "[]" and lg = "[]"
          and lg' = "[]" and cmdIdx' = 2 and inputPos' = 0 and out' = "[1]"]
  note w5 = C3_cursor [where endBit = 8 and commands = "''i1t4''"
          and inputBits = "bytesToBits [0x00]"
          and shouldLog = False and cmdIdx = 0 and inputPos = 0 and out = "[]" and lg = "[]"
          and lg' = "[]" and inputPos' = 4 and out' = "[1, 0, 0, 0, 0]"]
  have c1: "applyEdits [0x00] ''s16'' 0 8 False False
     = (case outerLoop (bytesToBits [0x00]) ''s16'' 8 False False (False, 0, [], []) of
          None \<Rightarrow> None
        | Some (lg', Inl e) \<Rightarrow> Some (lg', Inl e)
        | Some (lg', Inr outputBits) \<Rightarrow> Some (lg', Inr (bitsToBytes outputBits)))"
    using w1 by simp
  have c3: "snd (execCommand (bytesToBits [0x00]) ''s16'' 8 False 0 0 [] [])
            = Inr (3, wrap64 (0 + 16), [])"
    using w1 a f by simp
  have c4: "wrap64 (0 + 16) = 0 + 16" using w1 by simp
  have c6: "innerLoop (bytesToBits [0x00]) ''s16'' 8 False 3 16 [] [] = ([], Inr (16, []))"
    "outerLoop (bytesToBits [0x00]) ''s16'' 8 False False (True, 16, [], []) = Some ([], Inr [])"
    using w3 by simp_all
  have c7: "innerLoop (bytesToBits [0x00]) ''s16'' 8 False 0 0 [] []
       = innerLoop (bytesToBits [0x00]) ''s16'' 8 False 3 16 [] []"
    using w1 s by simp
  have c8: "(0::int) \<le> 4 \<and> (4::int) \<le> 8" using w5 p ns by simp
  have c2: "(0::int) \<le> 8 \<and> (8::int) \<le> 8" using w2 t by simp
  have c5: "(0::int) = 0" using w4 i by simp
  from c1 t c2 c3 c4 i c5 c6 c7 p c8 show ?thesis by simp
qed

text \<open>
  C3 as stated fails: with the range end at bit 8, the pass of \<^verbatim>\<open>s16\<close> from bit 0
  ends with the cursor at bit 16, beyond the end of the range.
\<close>

theorem C3_counterexample:
  "snd (innerLoop (bytesToBits [0x00]) ''s16'' 8 False 0 0 [] []) = Inr (16, [])
   \<and> \<not> (16::int) \<le> 8"
  by code_simp

section \<open>The top-level byte swap\<close>













section \<open>Logical commands inside a block chain\<close>

text \<open>
  The scanning loop returns the first index, from where it starts, of a character of
  the stop set, or the length of the text when there is none.
\<close>

lemma findNext_spec:
  "i \<le> length s \<Longrightarrow>
   i \<le> findNext stops s i \<and> findNext stops s i \<le> length s
   \<and> (\<forall>k. i \<le> k \<and> k < findNext stops s i \<longrightarrow> s ! k \<notin> set stops)
   \<and> (findNext stops s i < length s \<longrightarrow> s ! findNext stops s i \<in> set stops)"
proof (induction stops s i rule: findNext.induct)
  case (1 stops s i)
  show ?case
  proof (cases "i < length s")
    case False
    then have u: "findNext stops s i = length s" by (subst findNext.simps) simp
    from False "1.prems" show ?thesis unfolding u by auto
  next
    case True
    show ?thesis
    proof (cases "s ! i \<in> set stops")
      case hit: True
      with True have u: "findNext stops s i = i" by (subst findNext.simps) simp
      from True hit show ?thesis unfolding u by auto
    next
      case miss: False
      from True have "i + 1 \<le> length s" by simp
      from "1.IH" [OF True miss this]
      have IH: "i + 1 \<le> findNext stops s (i + 1)" "findNext stops s (i + 1) \<le> length s"
        "\<forall>k. i + 1 \<le> k \<and> k < findNext stops s (i + 1) \<longrightarrow> s ! k \<notin> set stops"
        "findNext stops s (i + 1) < length s \<longrightarrow> s ! findNext stops s (i + 1) \<in> set stops"
        by simp_all
      have unfold: "findNext stops s i = findNext stops s (i + 1)"
        using True miss by (subst findNext.simps) simp
      have "s ! k \<notin> set stops" if "i \<le> k" "k < findNext stops s (i + 1)" for k
      proof (cases "k = i")
        case True
        with miss show ?thesis by simp
      next
        case False
        with that IH(3) show ?thesis by auto
      qed
      with IH show ?thesis unfolding unfold by auto
    qed
  qed
qed

lemma findNext_none:
  assumes "i \<le> length s" and "\<forall>k. i \<le> k \<and> k < length s \<longrightarrow> s ! k \<notin> set stops"
  shows "findNext stops s i = length s"
proof -
  from findNext_spec [OF assms(1), of stops]
  have le: "i \<le> findNext stops s i" "findNext stops s i \<le> length s"
    and hit: "findNext stops s i < length s \<longrightarrow> s ! findNext stops s i \<in> set stops"
    by simp_all
  show ?thesis
  proof (rule ccontr)
    assume "findNext stops s i \<noteq> length s"
    with le have lt: "findNext stops s i < length s" by simp
    with hit have "s ! findNext stops s i \<in> set stops" by simp
    with assms(2) le lt show False by blast
  qed
qed

lemma applyLogical_length [simp]: "length (applyLogical command pattern chunk) = length chunk"
  by (simp add: applyLogical_def)

lemma applyLogical_nth:
  "i < length chunk \<Longrightarrow>
   applyLogical command pattern chunk ! i
   = logicalOp command (chunk ! i)
       (of_char (pattern ! (i mod length pattern)) - of_char (CHR ''0''))"
  by (simp add: applyLogical_def patternBit_def)

lemma blockCommand_logical:
  assumes "command \<in> set ''xao''" and "SplitN2 argStr = Some (countStr, pattern)"
    and "pattern \<noteq> []"
  shows "blockCommand command argStr chunk = Inr (applyLogical command pattern chunk)"
  using assms by (auto simp: blockCommand_def)

lemma blockCommand_logical_error:
  assumes "command \<in> set ''xao''"
  shows "(\<exists>e. blockCommand command argStr chunk = Inl e)
         \<longleftrightarrow> CHR '':'' \<notin> set argStr \<or> tl (dropWhile (\<lambda>c. c \<noteq> CHR '':'') argStr) = []"
  using assms by (auto simp: blockCommand_def SplitN2_def)

lemma execLogical_rejects:
  assumes "SplitN2 argStr = Some (countStr, pattern)" and "Atoi countStr = Some count"
    and "pattern \<noteq> []" and "\<not> list_all isBinaryChar pattern"
  shows "execLogical command argStr inputBits endBit inputPos out
         = Inl (InvalidBinaryPattern command pattern)"
  using assms by (simp add: execLogical_def)

lemma applyBlockOps_single_logical:
  assumes c: "command \<in> set ''xao''" and ne: "pattern \<noteq> []"
    and free: "set pattern \<inter> set ''nvxao'' = {}"
  shows "applyBlockOps chunk (command # CHR '':'' # pattern) False lg
         = (lg, Inr (applyLogical command pattern chunk))"
proof -
  let ?sub = "command # CHR '':'' # pattern"
  have "\<forall>k. 1 \<le> k \<and> k < length ?sub \<longrightarrow> ?sub ! k \<notin> set ''nvxao''"
  proof (intro allI impI)
    fix k assume k: "1 \<le> k \<and> k < length ?sub"
    show "?sub ! k \<notin> set ''nvxao''"
    proof (cases "k = 1")
      case True
      then show ?thesis by simp
    next
      case False
      with k obtain j where j: "k = Suc (Suc j)" "j < length pattern"
        by (cases k; cases "k - 1") auto
      then have "?sub ! k = pattern ! j" by simp
      moreover have "pattern ! j \<in> set pattern" using j by simp
      moreover have "\<forall>c\<in>set pattern. c \<notin> set ''nvxao''"
        using free by (simp only: disjoint_iff Ball_def)
      ultimately show ?thesis by simp
    qed
  qed
  then have fn: "findNext ''nvxao'' ?sub 1 = length ?sub"
    by (intro findNext_none) simp_all
  have arg: "substr ?sub 1 (length ?sub) = CHR '':'' # pattern"
    by (simp add: substr_def)
  have sp: "SplitN2 (CHR '':'' # pattern) = Some ([], pattern)"
    by (simp add: SplitN2_def)
  have bc: "blockCommand command (CHR '':'' # pattern) chunk
            = Inr (applyLogical command pattern chunk)"
    by (rule blockCommand_logical [OF c sp ne])
  have stop: "blockLoop ?sub False (length ?sub) pc lg = (lg, Inr pc)" for pc
    by (subst blockLoop.simps) simp
  have "blockLoop ?sub False 0 chunk lg = blockLoop ?sub False (length ?sub)
            (applyLogical command pattern chunk) lg"
    using c fn arg bc
    by (subst blockLoop.simps) (simp add: blockArgEnd_def Let_def)
  with stop show ?thesis by (simp add: applyBlockOps_def)
qed

lemma blockLoop_step:
  assumes "cmdIdx < length subProgram"
  shows "snd (blockLoop subProgram verbose cmdIdx pc lg)
     = (case blockCommand (subProgram ! cmdIdx)
               (substr subProgram (cmdIdx + 1)
                  (blockArgEnd subProgram (subProgram ! cmdIdx) (cmdIdx + 1))) pc of
          Inl e \<Rightarrow> Inl e
        | Inr pc' \<Rightarrow>
            snd (blockLoop subProgram verbose'
                   (blockArgEnd subProgram (subProgram ! cmdIdx) (cmdIdx + 1)) pc' lg'))"
proof -
  let ?command = "subProgram ! cmdIdx"
  let ?next = "blockArgEnd subProgram ?command (cmdIdx + 1)"
  let ?arg = "substr subProgram (cmdIdx + 1) ?next"
  have "snd (blockLoop subProgram verbose cmdIdx pc lg)
        = snd (blockLoop subProgram False cmdIdx pc [])"
    by (rule blockLoop_verbose_False)
  also have "\<dots> = (case blockCommand ?command ?arg pc of
          Inl e \<Rightarrow> Inl e
        | Inr pc' \<Rightarrow> snd (blockLoop subProgram False ?next pc' []))"
    using assms
    by (subst blockLoop.simps) (simp add: Let_def split: sum.splits)
  also have "\<dots> = (case blockCommand ?command ?arg pc of
          Inl e \<Rightarrow> Inl e
        | Inr pc' \<Rightarrow> snd (blockLoop subProgram verbose' ?next pc' lg'))"
    using blockLoop_verbose_False [of subProgram verbose' ?next _ lg' "[]"]
    by (simp split: sum.splits)
  finally show ?thesis .
qed

lemma blockLoop_errors:
  "snd (blockLoop subProgram verbose cmdIdx pc lg) = Inl e \<Longrightarrow>
   (\<exists>c. e = BlockRequiresPattern c \<or> e = BlockEmptyPattern c
        \<or> e = NotAllowedInBlock c \<or> e = UnknownBlockCommand c)"
proof (induction subProgram verbose cmdIdx pc lg rule: blockLoop.induct)
  case (1 subProgram verbose cmdIdx processedChunk lg)
  show ?case
  proof (cases "cmdIdx < length subProgram")
    case False
    with "1.prems" show ?thesis by (simp add: blockLoop.simps [of subProgram _ cmdIdx])
  next
    case True
    let ?command = "subProgram ! cmdIdx"
    let ?next = "blockArgEnd subProgram ?command (cmdIdx + 1)"
    let ?arg = "substr subProgram (cmdIdx + 1) ?next"
    show ?thesis
    proof (cases "blockCommand ?command ?arg processedChunk")
      case (Inl e')
      with True "1.prems" have "e = e'"
        by (simp add: blockLoop.simps [of subProgram _ cmdIdx] Let_def)
      with Inl show ?thesis
        by (auto simp: blockCommand_def split: if_splits option.splits prod.splits)
    next
      case (Inr pc')
      let ?lg1 = "if verbose
          then lg @ [ApplyingBlockCommand (commandName ?command)
                 (if ?arg \<noteq> [] then '' with arg '' @ [CHR 0x22] @ ?arg @ [CHR 0x22] else ?arg)]
          else lg"
      from True Inr "1.prems" have "snd (blockLoop subProgram verbose ?next pc' ?lg1) = Inl e"
        by (simp add: blockLoop.simps [of subProgram _ cmdIdx] Let_def
                 split del: if_split cong: if_cong)
      then show ?thesis
        by (rule "1.IH" [OF True refl refl refl refl refl Inr])
    qed
  qed
qed


lemma execCommand_logical_step:
  assumes "commands ! idx \<in> set ''xao''"
  shows "snd (execCommand inputBits commands endBit shouldLog idx inputPos out lg)
     = (case execLogical (commands ! idx)
               (substr commands (idx + 1) (findNext ''tsnivxaob['' commands (idx + 1)))
               inputBits endBit inputPos out of
          Inl e \<Rightarrow> Inl e
        | Inr (p, q) \<Rightarrow> Inr (findNext ''tsnivxaob['' commands (idx + 1), p, q))"
proof -
  from assms have c: "commands ! idx \<noteq> CHR ''[''" "commands ! idx \<notin> set ''tsnvb''"
    "commands ! idx \<noteq> CHR ''i''"
    by auto
  have m: "commands ! idx \<in> set ''xao'' \<longleftrightarrow> True" using assms by simp
  show ?thesis
    unfolding execCommand_def execSimple_def Let_def
    by (simp only: c m if_False if_True snd_case_sum_pair)
qed

lemma execCommand_simple_next:
  assumes "commands ! idx \<noteq> CHR ''[''"
    and "execCommand inputBits commands endBit shouldLog idx inputPos out lg
         = (lg', Inr (idx', inputPos', out'))"
  shows "idx' = findNext ''tsnivxaob['' commands (idx + 1)"
  using assms
  unfolding execCommand_def execSimple_def Let_def
  by (simp split: sum.splits prod.splits)

lemma execCommand_rejects_pattern:
  assumes "commands ! idx \<in> set ''xao''"
    and "SplitN2 (substr commands (idx + 1) (findNext ''tsnivxaob['' commands (idx + 1)))
         = Some (countStr, pattern)"
    and "Atoi countStr = Some count" and "pattern \<noteq> []"
    and "\<not> list_all isBinaryChar pattern"
  shows "snd (execCommand inputBits commands endBit shouldLog idx inputPos out lg)
         = Inl (InvalidBinaryPattern (commands ! idx) pattern)"
  using execLogical_rejects [OF assms(2-5)] execCommand_logical_step [OF assms(1)]
  by simp

lemma blockLoop_logical_step:
  assumes "cmdIdx < length subProgram" and "subProgram ! cmdIdx \<in> set ''xao''"
    and "SplitN2 (substr subProgram (cmdIdx + 1)
                    (blockArgEnd subProgram (subProgram ! cmdIdx) (cmdIdx + 1)))
         = Some (countStr, pattern)"
    and "pattern \<noteq> []"
  shows "snd (blockLoop subProgram verbose cmdIdx chunk lg)
         = snd (blockLoop subProgram verbose
                  (blockArgEnd subProgram (subProgram ! cmdIdx) (cmdIdx + 1))
                  (applyLogical (subProgram ! cmdIdx) pattern chunk) lg)"
  using blockLoop_step [OF assms(1), of verbose chunk lg verbose lg]
    blockCommand_logical [OF assms(2-4), of chunk]
  by simp

lemma blockLoop_logical_errors:
  assumes "cmdIdx < length subProgram" and "subProgram ! cmdIdx \<in> set ''xao''"
  shows "CHR '':'' \<notin> set (substr subProgram (cmdIdx + 1)
                    (blockArgEnd subProgram (subProgram ! cmdIdx) (cmdIdx + 1)))
         \<Longrightarrow> snd (blockLoop subProgram verbose cmdIdx chunk lg)
             = Inl (BlockRequiresPattern (subProgram ! cmdIdx))"
    and "SplitN2 (substr subProgram (cmdIdx + 1)
                    (blockArgEnd subProgram (subProgram ! cmdIdx) (cmdIdx + 1)))
         = Some (countStr, [])
         \<Longrightarrow> snd (blockLoop subProgram verbose cmdIdx chunk lg)
             = Inl (BlockEmptyPattern (subProgram ! cmdIdx))"
proof -
  let ?arg = "substr subProgram (cmdIdx + 1)
                (blockArgEnd subProgram (subProgram ! cmdIdx) (cmdIdx + 1))"
  note step = blockLoop_step [OF assms(1), of verbose chunk lg verbose lg]
  {
    assume "CHR '':'' \<notin> set ?arg"
    with assms(2) have "blockCommand (subProgram ! cmdIdx) ?arg chunk
          = Inl (BlockRequiresPattern (subProgram ! cmdIdx))"
      by (auto simp: blockCommand_def SplitN2_def)
    with step show "snd (blockLoop subProgram verbose cmdIdx chunk lg)
             = Inl (BlockRequiresPattern (subProgram ! cmdIdx))"
      by simp
  }
  {
    assume "SplitN2 ?arg = Some (countStr, [])"
    with assms(2) have "blockCommand (subProgram ! cmdIdx) ?arg chunk
          = Inl (BlockEmptyPattern (subProgram ! cmdIdx))"
      by (auto simp: blockCommand_def)
    with step show "snd (blockLoop subProgram verbose cmdIdx chunk lg)
             = Inl (BlockEmptyPattern (subProgram ! cmdIdx))"
      by simp
  }
qed

text \<open>
  C9. Inside a block chain the argument of \<^verbatim>\<open>x\<close>, \<^verbatim>\<open>a\<close> or \<^verbatim>\<open>o\<close> is checked
  only for containing a colon and for a nonempty text after the first colon: these are
  the only two errors of the command, whatever characters the pattern holds. This holds
  at every position of every chain: when the argument has a colon and a nonempty
  pattern, the block loop goes on to the next chain command with the masked chunk, and
  the only errors the block sub-engine ever returns are "requires a pattern", "pattern
  cannot be empty", "not allowed in block" and "unknown command". Each mask value is the
  pattern character's code minus the code of \<^verbatim>\<open>0\<close>, in byte arithmetic, so the
  pattern \<^verbatim>\<open>2\<close> turns the elements \<open>1 0 1 0\<close> into \<open>3 2 3 2\<close>. A top-level
  \<^verbatim>\<open>x\<close>, \<^verbatim>\<open>a\<close> or \<^verbatim>\<open>o\<close>, at any position of the program, rejects a pattern
  with a character other than \<^verbatim>\<open>0\<close> and \<^verbatim>\<open>1\<close> with the error "invalid binary
  pattern".
\<close>

theorem C9_block_pattern_unchecked:
  "(command \<in> set ''xao'' \<and> SplitN2 argStr = Some (countStr, pattern) \<and> pattern \<noteq> []
      \<longrightarrow> blockCommand command argStr chunk = Inr (applyLogical command pattern chunk))
   \<and> (command \<in> set ''xao''
      \<longrightarrow> ((\<exists>e. blockCommand command argStr chunk = Inl e)
           \<longleftrightarrow> CHR '':'' \<notin> set argStr \<or> tl (dropWhile (\<lambda>c. c \<noteq> CHR '':'') argStr) = []))
   \<and> length (applyLogical command pattern chunk) = length chunk
   \<and> (\<forall>i<length chunk.
         applyLogical command pattern chunk ! i
         = logicalOp command (chunk ! i)
             (of_char (pattern ! (i mod length pattern)) - of_char (CHR ''0'')))
   \<and> (command \<in> set ''xao'' \<and> pattern \<noteq> [] \<and> set pattern \<inter> set ''nvxao'' = {}
      \<longrightarrow> applyBlockOps chunk (command # CHR '':'' # pattern) False lg
          = (lg, Inr (applyLogical command pattern chunk)))
   \<and> (SplitN2 argStr = Some (countStr, pattern) \<and> Atoi countStr = Some count
       \<and> pattern \<noteq> [] \<and> \<not> list_all isBinaryChar pattern
      \<longrightarrow> execLogical command argStr inputBits endBit inputPos out
          = Inl (InvalidBinaryPattern command pattern))
   \<and> applyBlockOps [1, 0, 1, 0] ''x:2'' False [] = ([], Inr [3, 2, 3, 2])
   \<and> transform [0xFF] ''[x:2]8'' 0 0 False False = Some (Inr [0x00])
   \<and> transform [0xFF] ''x8:2'' 0 0 False False
       = Some (Inl (InvalidBinaryPattern (CHR ''x'') ''2''))
   \<and> (cmdIdx < length subProgram \<and> subProgram ! cmdIdx \<in> set ''xao''
       \<and> SplitN2 (substr subProgram (cmdIdx + 1)
                     (blockArgEnd subProgram (subProgram ! cmdIdx) (cmdIdx + 1)))
           = Some (countStr, pattern)
       \<and> pattern \<noteq> []
      \<longrightarrow> snd (blockLoop subProgram verbose cmdIdx chunk lg)
          = snd (blockLoop subProgram verbose
                   (blockArgEnd subProgram (subProgram ! cmdIdx) (cmdIdx + 1))
                   (applyLogical (subProgram ! cmdIdx) pattern chunk) lg))
   \<and> (cmdIdx < length subProgram \<and> subProgram ! cmdIdx \<in> set ''xao''
       \<and> CHR '':'' \<notin> set (substr subProgram (cmdIdx + 1)
                     (blockArgEnd subProgram (subProgram ! cmdIdx) (cmdIdx + 1)))
      \<longrightarrow> snd (blockLoop subProgram verbose cmdIdx chunk lg)
          = Inl (BlockRequiresPattern (subProgram ! cmdIdx)))
   \<and> (cmdIdx < length subProgram \<and> subProgram ! cmdIdx \<in> set ''xao''
       \<and> SplitN2 (substr subProgram (cmdIdx + 1)
                     (blockArgEnd subProgram (subProgram ! cmdIdx) (cmdIdx + 1)))
           = Some (countStr, [])
      \<longrightarrow> snd (blockLoop subProgram verbose cmdIdx chunk lg)
          = Inl (BlockEmptyPattern (subProgram ! cmdIdx)))
   \<and> (snd (applyBlockOps chunk subProgram verbose lg) = Inl err
      \<longrightarrow> (\<exists>c. err = BlockRequiresPattern c \<or> err = BlockEmptyPattern c
                \<or> err = NotAllowedInBlock c \<or> err = UnknownBlockCommand c))
   \<and> (commands ! idx \<in> set ''xao''
       \<and> SplitN2 (substr commands (idx + 1) (findNext ''tsnivxaob['' commands (idx + 1)))
           = Some (countStr, pattern)
       \<and> Atoi countStr = Some count \<and> pattern \<noteq> [] \<and> \<not> list_all isBinaryChar pattern
      \<longrightarrow> snd (execCommand inputBits commands endBit shouldLog idx inputPos out lg)
          = Inl (InvalidBinaryPattern (commands ! idx) pattern))
   \<and> applyBlockOps [1, 0, 1, 0] ''nx:2'' False [] = ([], Inr [2, 3, 2, 3])
   \<and> transform [0xFF] ''[nx:2]8'' 0 0 False False = Some (Inr [0x00])"
proof (intro conjI impI allI)
  assume "command \<in> set ''xao'' \<and> SplitN2 argStr = Some (countStr, pattern) \<and> pattern \<noteq> []"
  then show "blockCommand command argStr chunk = Inr (applyLogical command pattern chunk)"
    by (intro blockCommand_logical [where countStr = countStr]) simp_all
next
  assume "command \<in> set ''xao''"
  then show "(\<exists>e. blockCommand command argStr chunk = Inl e)
           \<longleftrightarrow> CHR '':'' \<notin> set argStr \<or> tl (dropWhile (\<lambda>c. c \<noteq> CHR '':'') argStr) = []"
    by (rule blockCommand_logical_error)
next
  show "length (applyLogical command pattern chunk) = length chunk" by simp
next
  fix i assume "i < length chunk"
  then show "applyLogical command pattern chunk ! i
         = logicalOp command (chunk ! i)
             (of_char (pattern ! (i mod length pattern)) - of_char (CHR ''0''))"
    by (rule applyLogical_nth)
next
  assume "command \<in> set ''xao'' \<and> pattern \<noteq> [] \<and> set pattern \<inter> set ''nvxao'' = {}"
  then show "applyBlockOps chunk (command # CHR '':'' # pattern) False lg
          = (lg, Inr (applyLogical command pattern chunk))"
    by (intro applyBlockOps_single_logical) simp_all
next
  assume "SplitN2 argStr = Some (countStr, pattern) \<and> Atoi countStr = Some count
       \<and> pattern \<noteq> [] \<and> \<not> list_all isBinaryChar pattern"
  then show "execLogical command argStr inputBits endBit inputPos out
          = Inl (InvalidBinaryPattern command pattern)"
    by (intro execLogical_rejects [where countStr = countStr and count = count]) simp_all
next
  show "applyBlockOps [1, 0, 1, 0] ''x:2'' False [] = ([], Inr [3, 2, 3, 2])"
    by code_simp
next
  show "transform [0xFF] ''[x:2]8'' 0 0 False False = Some (Inr [0x00])"
    by code_simp
next
  show "transform [0xFF] ''x8:2'' 0 0 False False
       = Some (Inl (InvalidBinaryPattern (CHR ''x'') ''2''))"
    by code_simp
next
  assume "cmdIdx < length subProgram \<and> subProgram ! cmdIdx \<in> set ''xao''
       \<and> SplitN2 (substr subProgram (cmdIdx + 1)
                     (blockArgEnd subProgram (subProgram ! cmdIdx) (cmdIdx + 1)))
           = Some (countStr, pattern)
       \<and> pattern \<noteq> []"
  then show "snd (blockLoop subProgram verbose cmdIdx chunk lg)
          = snd (blockLoop subProgram verbose
                   (blockArgEnd subProgram (subProgram ! cmdIdx) (cmdIdx + 1))
                   (applyLogical (subProgram ! cmdIdx) pattern chunk) lg)"
    by (intro blockLoop_logical_step [where countStr = countStr]) simp_all
next
  assume "cmdIdx < length subProgram \<and> subProgram ! cmdIdx \<in> set ''xao''
       \<and> CHR '':'' \<notin> set (substr subProgram (cmdIdx + 1)
                     (blockArgEnd subProgram (subProgram ! cmdIdx) (cmdIdx + 1)))"
  then show "snd (blockLoop subProgram verbose cmdIdx chunk lg)
          = Inl (BlockRequiresPattern (subProgram ! cmdIdx))"
    by (intro blockLoop_logical_errors(1)) simp_all
next
  assume "cmdIdx < length subProgram \<and> subProgram ! cmdIdx \<in> set ''xao''
       \<and> SplitN2 (substr subProgram (cmdIdx + 1)
                     (blockArgEnd subProgram (subProgram ! cmdIdx) (cmdIdx + 1)))
           = Some (countStr, [])"
  then show "snd (blockLoop subProgram verbose cmdIdx chunk lg)
          = Inl (BlockEmptyPattern (subProgram ! cmdIdx))"
    by (intro blockLoop_logical_errors(2) [where countStr = countStr]) simp_all
next
  assume "snd (applyBlockOps chunk subProgram verbose lg) = Inl err"
  then show "\<exists>c. err = BlockRequiresPattern c \<or> err = BlockEmptyPattern c
                \<or> err = NotAllowedInBlock c \<or> err = UnknownBlockCommand c"
    unfolding applyBlockOps_def by (rule blockLoop_errors)
next
  assume "commands ! idx \<in> set ''xao''
       \<and> SplitN2 (substr commands (idx + 1) (findNext ''tsnivxaob['' commands (idx + 1)))
           = Some (countStr, pattern)
       \<and> Atoi countStr = Some count \<and> pattern \<noteq> [] \<and> \<not> list_all isBinaryChar pattern"
  then show "snd (execCommand inputBits commands endBit shouldLog idx inputPos out lg)
          = Inl (InvalidBinaryPattern (commands ! idx) pattern)"
    by (intro execCommand_rejects_pattern [where countStr = countStr and count = count])
       simp_all
next
  show "applyBlockOps [1, 0, 1, 0] ''nx:2'' False [] = ([], Inr [2, 3, 2, 3])"
    by code_simp
next
  show "transform [0xFF] ''[nx:2]8'' 0 0 False False = Some (Inr [0x00])"
    by code_simp
qed

theorem C9_block_pattern_unchecked_witness:
  "blockCommand (CHR ''x'') '':2'' [1, 0, 1, 0] = Inr (applyLogical (CHR ''x'') ''2'' [1, 0, 1, 0])
   \<and> (\<nexists>e. blockCommand (CHR ''x'') '':2'' [1, 0, 1, 0] = Inl e)
   \<and> applyLogical (CHR ''x'') ''2'' [1, 0, 1, 0] ! 0
       = logicalOp (CHR ''x'') 1 (of_char (CHR ''2'') - of_char (CHR ''0''))
   \<and> applyBlockOps [1, 0, 1, 0] ''x:2'' False []
       = ([], Inr (applyLogical (CHR ''x'') ''2'' [1, 0, 1, 0]))
   \<and> execLogical (CHR ''x'') ''8:2'' (bytesToBits [0xFF]) 8 0 []
       = Inl (InvalidBinaryPattern (CHR ''x'') ''2'')
   \<and> snd (blockLoop ''nx:2'' False 1 [0, 1, 0, 1] [])
       = snd (blockLoop ''nx:2'' False 4 (applyLogical (CHR ''x'') ''2'' [0, 1, 0, 1]) [])
   \<and> snd (blockLoop ''nx2'' False 1 [0, 1, 0, 1] []) = Inl (BlockRequiresPattern (CHR ''x''))
   \<and> snd (blockLoop ''nx:'' False 1 [0, 1, 0, 1] []) = Inl (BlockEmptyPattern (CHR ''x''))
   \<and> snd (applyBlockOps [1, 0, 1, 0] ''nt'' False []) = Inl (NotAllowedInBlock (CHR ''t''))
   \<and> (\<exists>c. NotAllowedInBlock (CHR ''t'') = BlockRequiresPattern c
          \<or> NotAllowedInBlock (CHR ''t'') = BlockEmptyPattern c
          \<or> NotAllowedInBlock (CHR ''t'') = NotAllowedInBlock c
          \<or> NotAllowedInBlock (CHR ''t'') = UnknownBlockCommand c)
   \<and> snd (execCommand (bytesToBits [0xFF]) ''t4x4:2'' 8 False 2 4 [] [])
       = Inl (InvalidBinaryPattern (CHR ''x'') ''2'')"
proof -
  have s1: "SplitN2 '':2'' = Some ('''', ''2'')" by code_simp
  have s2: "SplitN2 ''8:2'' = Some (''8'', ''2'')" by code_simp
  have a: "Atoi ''8'' = Some 8" by code_simp
  have nb: "\<not> list_all isBinaryChar ''2''" by code_simp
  have d: "set ''2'' \<inter> set ''nvxao'' = {}" by simp
  have b1: "blockArgEnd ''nx:2'' (''nx:2'' ! 1) (1 + 1) = 4" by code_simp
  have b2: "substr ''nx:2'' (1 + 1) 4 = '':2''" by code_simp
  have b3: "''nx:2'' ! 1 = CHR ''x''" by simp
  have e1: "CHR '':'' \<notin> set (substr ''nx2'' (1 + 1) (blockArgEnd ''nx2'' (''nx2'' ! 1) (1 + 1)))"
    by code_simp
  have e2: "SplitN2 (substr ''nx:'' (1 + 1) (blockArgEnd ''nx:'' (''nx:'' ! 1) (1 + 1)))
            = Some ('''', '''')"
    by code_simp
  have e3: "snd (applyBlockOps [1, 0, 1, 0] ''nt'' False []) = Inl (NotAllowedInBlock (CHR ''t''))"
    by code_simp
  have t1: "SplitN2 (substr ''t4x4:2'' (2 + 1) (findNext ''tsnivxaob['' ''t4x4:2'' (2 + 1)))
            = Some (''4'', ''2'')"
    by code_simp
  have t2: "Atoi ''4'' = Some 4" by code_simp
  note w1 = C9_block_pattern_unchecked [where command = "CHR ''x''" and argStr = "'':2''"
        and countStr = "''''" and pattern = "''2''" and chunk = "[1, 0, 1, 0]" and lg = "[]"]
  note w2 = C9_block_pattern_unchecked [where command = "CHR ''x''" and argStr = "''8:2''"
        and countStr = "''8''" and pattern = "''2''" and chunk = "[1, 0, 1, 0]" and lg = "[]"
        and count = 8 and inputBits = "bytesToBits [0xFF]" and endBit = 8 and inputPos = 0
        and out = "[]"]
  note w3 = C9_block_pattern_unchecked [where subProgram = "''nx:2''" and cmdIdx = 1 and countStr = "''''"
        and pattern = "''2''" and chunk = "[0, 1, 0, 1]" and lg = "[]" and verbose = False]
  note w4 = C9_block_pattern_unchecked [where subProgram = "''nx2''" and cmdIdx = 1
        and chunk = "[0, 1, 0, 1]" and lg = "[]" and verbose = False]
  note w5 = C9_block_pattern_unchecked [where subProgram = "''nx:''" and cmdIdx = 1 and countStr = "''''"
        and chunk = "[0, 1, 0, 1]" and lg = "[]" and verbose = False]
  note w6 = C9_block_pattern_unchecked [where subProgram = "''nt''"
        and chunk = "[1, 0, 1, 0]" and lg = "[]" and verbose = False
        and err = "NotAllowedInBlock (CHR ''t'')"]
  note w7 = C9_block_pattern_unchecked [where commands = "''t4x4:2''" and idx = 2 and countStr = "''4''"
        and pattern = "''2''" and count = 4 and inputBits = "bytesToBits [0xFF]" and endBit = 8
        and shouldLog = False and inputPos = 4 and out = "[]" and lg = "[]"]
  have c1: "blockCommand (CHR ''x'') '':2'' [1, 0, 1, 0]
            = Inr (applyLogical (CHR ''x'') ''2'' [1, 0, 1, 0])"
    and c2: "\<nexists>e. blockCommand (CHR ''x'') '':2'' [1, 0, 1, 0] = Inl e"
    and c3: "applyLogical (CHR ''x'') ''2'' [1, 0, 1, 0] ! 0
       = logicalOp (CHR ''x'') 1 (of_char (CHR ''2'') - of_char (CHR ''0''))"
    and c4: "applyBlockOps [1, 0, 1, 0] ''x:2'' False []
       = ([], Inr (applyLogical (CHR ''x'') ''2'' [1, 0, 1, 0]))"
    using w1 s1 d by simp_all
  have c5: "execLogical (CHR ''x'') ''8:2'' (bytesToBits [0xFF]) 8 0 []
       = Inl (InvalidBinaryPattern (CHR ''x'') ''2'')"
    using w2 s2 a nb by simp
  have c6: "snd (blockLoop ''nx:2'' False 1 [0, 1, 0, 1] [])
       = snd (blockLoop ''nx:2'' False 4 (applyLogical (CHR ''x'') ''2'' [0, 1, 0, 1]) [])"
    using w3 b1 b2 b3 s1 by simp
  have c7: "snd (blockLoop ''nx2'' False 1 [0, 1, 0, 1] []) = Inl (BlockRequiresPattern (CHR ''x''))"
    using w4 e1 by simp
  have c8: "snd (blockLoop ''nx:'' False 1 [0, 1, 0, 1] []) = Inl (BlockEmptyPattern (CHR ''x''))"
    using w5 e2 by simp
  have c9: "snd (execCommand (bytesToBits [0xFF]) ''t4x4:2'' 8 False 2 4 [] [])
       = Inl (InvalidBinaryPattern (CHR ''x'') ''2'')"
    using w7 t1 t2 nb by simp
  have c10: "\<exists>c. NotAllowedInBlock (CHR ''t'') = BlockRequiresPattern c
          \<or> NotAllowedInBlock (CHR ''t'') = BlockEmptyPattern c
          \<or> NotAllowedInBlock (CHR ''t'') = NotAllowedInBlock c
          \<or> NotAllowedInBlock (CHR ''t'') = UnknownBlockCommand c"
    using w6 e3 by blast
  from c1 c2 c3 c4 c5 c6 c7 c8 e3 c10 c9 show ?thesis by simp
qed

text \<open>
  C10. Inside a block chain the argument of \<^verbatim>\<open>x\<close>, \<^verbatim>\<open>a\<close> or \<^verbatim>\<open>o\<close> runs to the
  first following character of \<^verbatim>\<open>n v x a o\<close>, or to the end of the sub-program, and
  at every position of every chain the block loop gives the command that argument and
  goes on from its end. The characters \<^verbatim>\<open>b s t i [\<close> are not in that set: in the
  chain \<^verbatim>\<open>x:101b\<close> the argument ends at index 6, after the \<^verbatim>\<open>b\<close>, and the chain
  is one XOR with the pattern \<^verbatim>\<open>101b\<close> and no byte swap. At top level the argument
  of every command other than a block runs to the first following character of
  \<^verbatim>\<open>t s n i v x a o b [\<close>: the program \<^verbatim>\<open>x8:101b8\<close> is an XOR with the pattern
  \<^verbatim>\<open>101\<close> followed by a byte swap.
\<close>

theorem C10_block_argument_end:
  "(command \<in> set ''xao'' \<and> cmdIdx < length subProgram
      \<longrightarrow> cmdIdx + 1 \<le> blockArgEnd subProgram command (cmdIdx + 1)
          \<and> blockArgEnd subProgram command (cmdIdx + 1) \<le> length subProgram
          \<and> (\<forall>k. cmdIdx + 1 \<le> k \<and> k < blockArgEnd subProgram command (cmdIdx + 1)
                  \<longrightarrow> subProgram ! k \<notin> set ''nvxao'')
          \<and> (blockArgEnd subProgram command (cmdIdx + 1) < length subProgram
                \<longrightarrow> subProgram ! blockArgEnd subProgram command (cmdIdx + 1) \<in> set ''nvxao''))
   \<and> set ''bsti['' \<inter> set ''nvxao'' = {}
   \<and> set ''nvxao'' \<union> set ''bsti['' = set ''tsnivxaob[''
   \<and> blockArgEnd ''x:101b'' (CHR ''x'') 1 = 6
   \<and> findNext ''tsnivxaob['' ''x:101b'' 1 = 5
   \<and> applyBlockOps chunk ''x:101b'' False lg = (lg, Inr (applyLogical (CHR ''x'') ''101b'' chunk))
   \<and> (cmdIdx < length subProgram
      \<longrightarrow> snd (blockLoop subProgram verbose cmdIdx chunk lg)
          = (case blockCommand (subProgram ! cmdIdx)
                    (substr subProgram (cmdIdx + 1)
                       (blockArgEnd subProgram (subProgram ! cmdIdx) (cmdIdx + 1))) chunk of
               Inl e \<Rightarrow> Inl e
             | Inr chunk' \<Rightarrow>
                 snd (blockLoop subProgram verbose
                        (blockArgEnd subProgram (subProgram ! cmdIdx) (cmdIdx + 1)) chunk' lg)))
   \<and> (command \<notin> set ''xao'' \<longrightarrow> blockArgEnd subProgram command (cmdIdx + 1) = cmdIdx + 1)
   \<and> (i \<le> length s
      \<longrightarrow> i \<le> findNext stops s i \<and> findNext stops s i \<le> length s
          \<and> (\<forall>k. i \<le> k \<and> k < findNext stops s i \<longrightarrow> s ! k \<notin> set stops)
          \<and> (findNext stops s i < length s \<longrightarrow> s ! findNext stops s i \<in> set stops))
   \<and> (commands ! idx \<in> set ''xao''
      \<longrightarrow> snd (execCommand inputBits commands endBit shouldLog idx inputPos out lg)
          = (case execLogical (commands ! idx)
                    (substr commands (idx + 1) (findNext ''tsnivxaob['' commands (idx + 1)))
                    inputBits endBit inputPos out of
               Inl e \<Rightarrow> Inl e
             | Inr (p, q) \<Rightarrow> Inr (findNext ''tsnivxaob['' commands (idx + 1), p, q)))
   \<and> (commands ! idx \<noteq> CHR ''[''
       \<and> execCommand inputBits commands endBit shouldLog idx inputPos out lg
           = (lg', Inr (idx', inputPos', out'))
      \<longrightarrow> idx' = findNext ''tsnivxaob['' commands (idx + 1))
   \<and> transform [0xFF, 0x00] ''x8:101b8'' 0 0 False False = Some (Inr [0x49, 0x00])
   \<and> transform [0xFF, 0x00] ''[x:101b]8'' 0 0 False False = Some (Inr [0x44, 0xAA])
   \<and> applyBlockOps [1, 0, 1, 0] ''nx:101b'' False [] = ([], Inr [1, 1, 1, 51])"
proof (intro conjI impI)
  assume a: "command \<in> set ''xao'' \<and> cmdIdx < length subProgram"
  then have e: "blockArgEnd subProgram command (cmdIdx + 1)
                = findNext ''nvxao'' subProgram (cmdIdx + 1)"
    by (simp add: blockArgEnd_def)
  from a have "cmdIdx + 1 \<le> length subProgram" by simp
  note spec = findNext_spec [OF this, of "''nvxao''"]
  from spec show "cmdIdx + 1 \<le> blockArgEnd subProgram command (cmdIdx + 1)"
    unfolding e by blast
  from spec show "blockArgEnd subProgram command (cmdIdx + 1) \<le> length subProgram"
    unfolding e by blast
  from spec show "\<forall>k. cmdIdx + 1 \<le> k \<and> k < blockArgEnd subProgram command (cmdIdx + 1)
                  \<longrightarrow> subProgram ! k \<notin> set ''nvxao''"
    unfolding e by blast
  assume "blockArgEnd subProgram command (cmdIdx + 1) < length subProgram"
  with spec show "subProgram ! blockArgEnd subProgram command (cmdIdx + 1) \<in> set ''nvxao''"
    unfolding e by blast
next
  show "set ''bsti['' \<inter> set ''nvxao'' = {}" by simp
next
  show "set ''nvxao'' \<union> set ''bsti['' = set ''tsnivxaob[''" by auto
next
  show "blockArgEnd ''x:101b'' (CHR ''x'') 1 = 6" by code_simp
next
  show "findNext ''tsnivxaob['' ''x:101b'' 1 = 5" by code_simp
next
  have "set ''101b'' \<inter> set ''nvxao'' = {}" by simp
  then show "applyBlockOps chunk ''x:101b'' False lg
             = (lg, Inr (applyLogical (CHR ''x'') ''101b'' chunk))"
    by (intro applyBlockOps_single_logical) simp_all
next
  assume "cmdIdx < length subProgram"
  then show "snd (blockLoop subProgram verbose cmdIdx chunk lg)
          = (case blockCommand (subProgram ! cmdIdx)
                    (substr subProgram (cmdIdx + 1)
                       (blockArgEnd subProgram (subProgram ! cmdIdx) (cmdIdx + 1))) chunk of
               Inl e \<Rightarrow> Inl e
             | Inr chunk' \<Rightarrow>
                 snd (blockLoop subProgram verbose
                        (blockArgEnd subProgram (subProgram ! cmdIdx) (cmdIdx + 1)) chunk' lg))"
    by (rule blockLoop_step)
next
  assume "command \<notin> set ''xao''"
  then show "blockArgEnd subProgram command (cmdIdx + 1) = cmdIdx + 1"
    by (simp add: blockArgEnd_def)
next
  assume "i \<le> length s"
  note spec = findNext_spec [OF this, of stops]
  from spec show "i \<le> findNext stops s i" by blast
  from spec show "findNext stops s i \<le> length s" by blast
  from spec show "\<forall>k. i \<le> k \<and> k < findNext stops s i \<longrightarrow> s ! k \<notin> set stops" by blast
  assume "findNext stops s i < length s"
  with spec show "s ! findNext stops s i \<in> set stops" by blast
next
  assume "commands ! idx \<in> set ''xao''"
  then show "snd (execCommand inputBits commands endBit shouldLog idx inputPos out lg)
          = (case execLogical (commands ! idx)
                    (substr commands (idx + 1) (findNext ''tsnivxaob['' commands (idx + 1)))
                    inputBits endBit inputPos out of
               Inl e \<Rightarrow> Inl e
             | Inr (p, q) \<Rightarrow> Inr (findNext ''tsnivxaob['' commands (idx + 1), p, q))"
    by (rule execCommand_logical_step)
next
  assume "commands ! idx \<noteq> CHR ''[''
       \<and> execCommand inputBits commands endBit shouldLog idx inputPos out lg
           = (lg', Inr (idx', inputPos', out'))"
  then show "idx' = findNext ''tsnivxaob['' commands (idx + 1)"
    by (intro execCommand_simple_next [of commands idx inputBits endBit shouldLog inputPos out lg
          lg' idx' inputPos' out']) simp_all
next
  show "transform [0xFF, 0x00] ''x8:101b8'' 0 0 False False = Some (Inr [0x49, 0x00])"
    by code_simp
next
  show "transform [0xFF, 0x00] ''[x:101b]8'' 0 0 False False = Some (Inr [0x44, 0xAA])"
    by code_simp
next
  show "applyBlockOps [1, 0, 1, 0] ''nx:101b'' False [] = ([], Inr [1, 1, 1, 51])"
    by code_simp
qed

theorem C10_block_argument_end_witness:
  "(0::nat) + 1 \<le> blockArgEnd ''x:101b'' (CHR ''x'') (0 + 1)
   \<and> blockArgEnd ''x:101b'' (CHR ''x'') (0 + 1) \<le> length ''x:101b''
   \<and> ''x:101b'' ! 5 \<notin> set ''nvxao''
   \<and> ''x:1n'' ! blockArgEnd ''x:1n'' (CHR ''x'') (0 + 1) \<in> set ''nvxao''
   \<and> snd (blockLoop ''nx:101b'' False 1 [0, 1, 0, 1] [])
       = snd (blockLoop ''nx:101b'' False 7 (applyLogical (CHR ''x'') ''101b'' [0, 1, 0, 1]) [])
   \<and> blockArgEnd ''nx:101b'' (CHR ''n'') (0 + 1) = 0 + 1
   \<and> ''x8:101b8'' ! findNext ''tsnivxaob['' ''x8:101b8'' 1 \<in> set ''tsnivxaob[''
   \<and> snd (execCommand (bytesToBits [0xFF, 0x00]) ''x8:101b8'' 16 False 0 0 [] [])
       = Inr (6, 8, [0, 1, 0, 0, 1, 0, 0, 1])
   \<and> (6::nat) = findNext ''tsnivxaob['' ''x8:101b8'' (0 + 1)"
proof -
  have e: "blockArgEnd ''x:101b'' (CHR ''x'') (0 + 1) = 6" by code_simp
  have e': "blockArgEnd ''x:1n'' (CHR ''x'') (0 + 1) = 3" by code_simp
  from C10_block_argument_end [where command = "CHR ''x''" and cmdIdx = 0 and subProgram = "''x:101b''"]
  have "\<forall>k. 0 + 1 \<le> k \<and> k < blockArgEnd ''x:101b'' (CHR ''x'') (0 + 1)
            \<longrightarrow> ''x:101b'' ! k \<notin> set ''nvxao''"
    and c1: "(0::nat) + 1 \<le> blockArgEnd ''x:101b'' (CHR ''x'') (0 + 1)"
    and c2: "blockArgEnd ''x:101b'' (CHR ''x'') (0 + 1) \<le> length ''x:101b''"
    by simp_all
  from this(1) e have c3: "''x:101b'' ! 5 \<notin> set ''nvxao''"
    by (auto dest!: spec [of _ 5])
  from C10_block_argument_end [where command = "CHR ''x''" and cmdIdx = 0 and subProgram = "''x:1n''"] e'
  have c4: "''x:1n'' ! blockArgEnd ''x:1n'' (CHR ''x'') (0 + 1) \<in> set ''nvxao''"
    by simp
  have b1: "blockArgEnd ''nx:101b'' (''nx:101b'' ! 1) (1 + 1) = 7" by code_simp
  have b2: "blockCommand (''nx:101b'' ! 1) (substr ''nx:101b'' (1 + 1) 7) [0, 1, 0, 1]
            = Inr (applyLogical (CHR ''x'') ''101b'' [0, 1, 0, 1])"
    by code_simp
  from C10_block_argument_end [where cmdIdx = 1 and subProgram = "''nx:101b''" and verbose = False
        and chunk = "[0, 1, 0, 1]" and lg = "[]"] b1 b2
  have c5: "snd (blockLoop ''nx:101b'' False 1 [0, 1, 0, 1] [])
       = snd (blockLoop ''nx:101b'' False 7 (applyLogical (CHR ''x'') ''101b'' [0, 1, 0, 1]) [])"
    by simp
  from C10_block_argument_end [where command = "CHR ''n''" and cmdIdx = 0 and subProgram = "''nx:101b''"]
  have c6: "blockArgEnd ''nx:101b'' (CHR ''n'') (0 + 1) = 0 + 1" by simp
  have f: "findNext ''tsnivxaob['' ''x8:101b8'' 1 = 6" by code_simp
  from C10_block_argument_end [where s = "''x8:101b8''" and i = 1 and stops = "''tsnivxaob[''"] f
  have c7: "''x8:101b8'' ! findNext ''tsnivxaob['' ''x8:101b8'' 1 \<in> set ''tsnivxaob[''"
    by simp
  have l: "execLogical (''x8:101b8'' ! 0) (substr ''x8:101b8'' (0 + 1) 6)
             (bytesToBits [0xFF, 0x00]) 16 0 [] = Inr (8, [0, 1, 0, 0, 1, 0, 0, 1])"
    by code_simp
  have f': "findNext ''tsnivxaob['' ''x8:101b8'' (0 + 1) = 6" by code_simp
  from C10_block_argument_end [where commands = "''x8:101b8''" and idx = 0
        and inputBits = "bytesToBits [0xFF, 0x00]" and endBit = 16 and shouldLog = False
        and inputPos = 0 and out = "[]" and lg = "[]"] l f'
  have c8: "snd (execCommand (bytesToBits [0xFF, 0x00]) ''x8:101b8'' 16 False 0 0 [] [])
       = Inr (6, 8, [0, 1, 0, 0, 1, 0, 0, 1])"
    by simp
  have x: "execCommand (bytesToBits [0xFF, 0x00]) ''x8:101b8'' 16 False 0 0 [] []
           = ([], Inr (6, 8, [0, 1, 0, 0, 1, 0, 0, 1]))"
    by code_simp
  from C10_block_argument_end [where commands = "''x8:101b8''" and idx = 0
        and inputBits = "bytesToBits [0xFF, 0x00]" and endBit = 16 and shouldLog = False
        and inputPos = 0 and out = "[]" and lg = "[]" and lg' = "[]" and idx' = 6
        and inputPos' = 8 and out' = "[0, 1, 0, 0, 1, 0, 0, 1]"] x
  have c9: "(6::nat) = findNext ''tsnivxaob['' ''x8:101b8'' (0 + 1)"
    by simp
  from c1 c2 c3 c4 c5 c6 c7 c8 c9 show ?thesis by simp
qed

end
